theory Spec2Isabelle
  imports Complex_Main "HOL-Library.Multiset"
begin

section \<open>Tensors, failures and arithmetic\<close>

text \<open>
  The source is \<^verbatim>\<open>models/NeuralHawkesProcess/utils.py\<close>. A one-dimensional tensor is
  a list, a batch (two dimensions) is the list of its rows, a three-dimensional tensor is a
  list of such batches. Every place where Python or torch raises is a branch \<open>Inl\<close> of the
  result.
\<close>

datatype error = IndexError | RuntimeError | ZeroDivisionError

type_synonym vec = "real list"

text \<open>\<^verbatim>\<open>x[i]\<close> for an index \<open>i \<ge> 0\<close>: out of range raises.\<close>

definition nth_err :: "'a list \<Rightarrow> nat \<Rightarrow> error + 'a" where
  "nth_err xs i = (if i < length xs then Inr (xs ! i) else Inl IndexError)"

text \<open>\<^verbatim>\<open>x[k]\<close> for an integer tensor entry \<open>k\<close>: a negative index counts from the end.\<close>

definition py_nth :: "'a list \<Rightarrow> int \<Rightarrow> error + 'a" where
  "py_nth xs k =
     (if 0 \<le> k then nth_err xs (nat k)
      else if - k \<le> int (length xs) then Inr (xs ! nat (int (length xs) + k))
      else Inl IndexError)"

text \<open>The first failure of a list of results, or all the values.\<close>

fun sequence_err :: "(error + 'a) list \<Rightarrow> error + 'a list" where
  "sequence_err [] = Inr []"
| "sequence_err (x # xs) =
     (case x of
        Inl e \<Rightarrow> Inl e
      | Inr v \<Rightarrow> (case sequence_err xs of Inl e \<Rightarrow> Inl e | Inr vs \<Rightarrow> Inr (v # vs)))"

text \<open>\<^verbatim>\<open>x[a:b]\<close> with non-negative bounds: Python clips a slice to the list.\<close>

definition slice :: "'a list \<Rightarrow> nat \<Rightarrow> nat \<Rightarrow> 'a list" where
  "slice xs a b = drop a (take b xs)"

text \<open>\<^verbatim>\<open>torch.stack\<close> of a Python list of equally long rows: an empty list raises.\<close>

definition torch_stack :: "'a list list \<Rightarrow> error + 'a list list" where
  "torch_stack rows =
     (if rows = [] then Inl RuntimeError
      else if list_all (\<lambda>r. length r = length (hd rows)) rows then Inr rows
      else Inl RuntimeError)"

text \<open>\<^verbatim>\<open>t.transpose(1, 0)\<close> of a batch whose rows have \<open>n\<close> entries.\<close>

definition transpose10 :: "nat \<Rightarrow> 'a list list \<Rightarrow> 'a list list" where
  "transpose10 n rows = map (\<lambda>i. map (\<lambda>r. r ! i) rows) [0..<n]"

text \<open>
  The second component of \<^verbatim>\<open>t.shape\<close> for a batch given by its rows (all rows of a
  tensor are equally long; a batch without rows is given the width 0).
\<close>

definition ncols :: "'a list list \<Rightarrow> nat" where
  "ncols rows = (case rows of [] \<Rightarrow> 0 | r # _ \<Rightarrow> length r)"

text \<open>
  Floating-point results. Arithmetic on finite values is exact real arithmetic (rounding
  and overflow are not modelled). The two operations of the source that leave the finite
  values on finite arguments are written out: the logarithm of a value that is not
  positive (\<^verbatim>\<open>-inf\<close> at 0, \<^verbatim>\<open>nan\<close> below) and the division of tensors by zero
  (\<^verbatim>\<open>nan\<close> for 0/0, \<^verbatim>\<open>inf\<close> otherwise); neither raises. \<open>None\<close> stands for a value
  that is not a finite number (\<^verbatim>\<open>inf\<close>, \<^verbatim>\<open>-inf\<close> or \<^verbatim>\<open>nan\<close>); sums, differences
  and products with such a value are again not finite.
\<close>

type_synonym tfloat = "real option"

definition tlog :: "real \<Rightarrow> tfloat" where
  "tlog x = (if 0 < x then Some (ln x) else None)"

definition tdiv :: "real \<Rightarrow> real \<Rightarrow> tfloat" where
  "tdiv a b = (if b = 0 then None else Some (a / b))"

definition tadd :: "tfloat \<Rightarrow> tfloat \<Rightarrow> tfloat" where
  "tadd a b = (case a of None \<Rightarrow> None | Some x \<Rightarrow> (case b of None \<Rightarrow> None | Some y \<Rightarrow> Some (x + y)))"

definition tsub :: "tfloat \<Rightarrow> tfloat \<Rightarrow> tfloat" where
  "tsub a b = (case a of None \<Rightarrow> None | Some x \<Rightarrow> (case b of None \<Rightarrow> None | Some y \<Rightarrow> Some (x - y)))"

definition tmul :: "tfloat \<Rightarrow> tfloat \<Rightarrow> tfloat" where
  "tmul a b = (case a of None \<Rightarrow> None | Some x \<Rightarrow> (case b of None \<Rightarrow> None | Some y \<Rightarrow> Some (x * y)))"

definition tneg :: "tfloat \<Rightarrow> tfloat" where
  "tneg a = (case a of None \<Rightarrow> None | Some x \<Rightarrow> Some (- x))"

definition tsum :: "tfloat list \<Rightarrow> tfloat" where
  "tsum xs = foldl tadd (Some 0) xs"

section \<open>Random sources\<close>

text \<open>
  The state of torch's generator is the stream of unit-interval draws it has yet to
  deliver; a call that draws \<open>n\<close> values returns the stream advanced by \<open>n\<close>.
  \<open>unit_draws\<close> says that every draw lies in \<open>[0, 1)\<close>.
\<close>

type_synonym torch_gen = "nat \<Rightarrow> real"

definition advance :: "nat \<Rightarrow> (nat \<Rightarrow> 'a) \<Rightarrow> (nat \<Rightarrow> 'a)" where
  "advance n g = (\<lambda>k. g (n + k))"

definition unit_draws :: "torch_gen \<Rightarrow> bool" where
  "unit_draws g = (\<forall>k. 0 \<le> g k \<and> g k < 1)"

definition torch_rand :: "nat \<Rightarrow> torch_gen \<Rightarrow> vec \<times> torch_gen" where
  "torch_rand n g = (map g [0..<n], advance n g)"

text \<open>
  \<open>uniform_fill\<close> is \<^verbatim>\<open>x.uniform_(lo, hi)\<close>: it overwrites every entry of \<open>x\<close> with
  \<open>lo + (hi - lo) * u\<close> for a fresh unit draw \<open>u\<close>; torch refuses \<open>lo > hi\<close>.
\<close>

definition uniform_fill :: "real \<Rightarrow> real \<Rightarrow> vec \<Rightarrow> torch_gen \<Rightarrow> error + (vec \<times> torch_gen)" where
  "uniform_fill lo hi x g =
     (if lo \<le> hi
      then Inr (map (\<lambda>k. lo + (hi - lo) * g k) [0..<length x], advance (length x) g)
      else Inl RuntimeError)"

text \<open>
  numpy's generator is the stream of its raw draws; \<^verbatim>\<open>random_interval(i)\<close> is an index in
  \<open>[0, i]\<close> (every such index is the image of some raw draw).
\<close>

type_synonym np_gen = "nat \<Rightarrow> nat"

definition random_interval :: "nat \<Rightarrow> np_gen \<Rightarrow> nat \<times> np_gen" where
  "random_interval i h = (h 0 mod (i + 1), advance 1 h)"

text \<open>
  \<^verbatim>\<open>np.random.shuffle(x)\<close> for an \<open>x\<close> that is not a numpy array runs numpy's generic loop
  \<^verbatim>\<open>for i in reversed(range(1, n)): j = random_interval(i); x[i], x[j] = x[j], x[i]\<close>.
  The source passes a torch tensor, whose elements \<^verbatim>\<open>x[i]\<close> and \<^verbatim>\<open>x[j]\<close> are views of
  the tensor's storage: the right-hand side holds two views, the first assignment copies
  the value at \<open>j\<close> to position \<open>i\<close>, and the second copies the view of position \<open>i\<close>,
  which now reads that same value, to position \<open>j\<close>. So each step leaves position \<open>j\<close> as
  it is and overwrites position \<open>i\<close>. \<open>np_shuffle_loop i\<close> runs the steps \<open>i, i - 1, ..., 1\<close>.
\<close>

fun np_shuffle_loop :: "nat \<Rightarrow> vec \<Rightarrow> np_gen \<Rightarrow> vec \<times> np_gen" where
  "np_shuffle_loop 0 x h = (x, h)"
| "np_shuffle_loop (Suc i) x h =
     (case random_interval (Suc i) h of
        (j, h') \<Rightarrow>
          (let x' = x[Suc i := x ! j]
           in np_shuffle_loop i (x'[j := x' ! Suc i]) h'))"

definition np_shuffle :: "vec \<Rightarrow> np_gen \<Rightarrow> vec \<times> np_gen" where
  "np_shuffle x h = np_shuffle_loop (length x - 1) x h"

section \<open>The beginning-of-stream padding\<close>

text \<open>
  \<^verbatim>\<open>t[:, 0]\<close>: the first column of a batch. A batch of width 0 has none, and the
  index raises; that is a batch whose rows are empty, and the batch without rows, whose
  width is 0 (see \<open>ncols\<close>).
\<close>

definition column0 :: "'a list list \<Rightarrow> error + 'a list" where
  "column0 t =
     (if t = [] then Inl IndexError
      else if list_all (\<lambda>r. 0 < length r) t then Inr (map hd t)
      else Inl IndexError)"

text \<open>
  The entries of an integer tensor are 64-bit signed integers: \<open>int64 k\<close> is the entry
  that holds the result \<open>k\<close> of an integer operation, wrapped around outside
  \<open>[-2^63, 2^63)\<close>. \<open>in_int64\<close> says that a number is such an entry.
\<close>

definition int64 :: "int \<Rightarrow> int" where
  "int64 k = (k + 2 ^ 63) mod 2 ^ 64 - 2 ^ 63"

definition in_int64 :: "int \<Rightarrow> bool" where
  "in_int64 k = (- (2 ^ 63) \<le> k \<and> k < 2 ^ 63)"

definition zeros_like :: "'a list \<Rightarrow> 'b::zero list" where
  "zeros_like x = map (\<lambda>_. 0) x"

text \<open>\<^verbatim>\<open>v.reshape(-1, 1)\<close> and \<^verbatim>\<open>torch.cat((a, b), dim=1)\<close>.\<close>

definition reshape_column :: "'a list \<Rightarrow> 'a list list" where
  "reshape_column v = map (\<lambda>x. [x]) v"

definition cat_dim1 :: "'a list list \<Rightarrow> 'a list list \<Rightarrow> error + 'a list list" where
  "cat_dim1 a b = (if length a = length b then Inr (map2 (@) a b) else Inl RuntimeError)"

text \<open>
  \<^verbatim>\<open>BeginningOfStream(batch_data, type_size)\<close>. Event types are integer codes in an
  integer tensor: the sum \<^verbatim>\<open>zeros_like(...) + type_size\<close> and the final \<^verbatim>\<open>.long()\<close>
  give 64-bit entries. The total times and the lengths are handed through, whatever they
  are.
\<close>

definition BeginningOfStream ::
  "int list list \<times> real list list \<times> 'a \<times> 'b \<Rightarrow> int \<Rightarrow>
     error + (int list list \<times> real list list \<times> 'a \<times> 'b)" where
  "BeginningOfStream batch_data type_size =
     (case batch_data of (seq_events, seq_time, seq_tot_time, seqs_len) \<Rightarrow>
        (case column0 seq_events of
           Inl e \<Rightarrow> Inl e
         | Inr events0 \<Rightarrow>
             (case column0 seq_time of
                Inl e \<Rightarrow> Inl e
              | Inr times0 \<Rightarrow>
                  (let pad_event = map (\<lambda>z. int64 (z + type_size)) (zeros_like events0);
                       pad_time = zeros_like times0
                   in case cat_dim1 (reshape_column pad_event) seq_events of
                        Inl e \<Rightarrow> Inl e
                      | Inr pad_event_seqs \<Rightarrow>
                          (case cat_dim1 (reshape_column pad_time) seq_time of
                             Inl e \<Rightarrow> Inl e
                           | Inr pad_time_seqs \<Rightarrow>
                               Inr (map (map int64) pad_event_seqs, pad_time_seqs,
                                    seq_tot_time, seqs_len))))))"

section \<open>The time samplers\<close>

text \<open>
  \<^verbatim>\<open>create_unifrom_d(event_times)\<close>. \<open>inter_arrival\<close> is the body's
  \<^verbatim>\<open>sim_inter_time = torch.zeros(batch_len); sim_inter_time[1:] = s[1:] - s[:-1]\<close>;
  \<open>unifrom_rows\<close> is the loop over the rows' total times, threading both generators.
\<close>

definition inter_arrival :: "nat \<Rightarrow> vec \<Rightarrow> vec" where
  "inter_arrival batch_len s =
     take 1 (replicate batch_len 0) @ map2 (\<lambda>a b. a - b) (drop 1 s) (butlast s)"

fun unifrom_rows ::
  "nat \<Rightarrow> real list \<Rightarrow> torch_gen \<Rightarrow> np_gen \<Rightarrow> error + (vec list \<times> torch_gen \<times> np_gen)" where
  "unifrom_rows batch_len [] g h = Inr ([], g, h)"
| "unifrom_rows batch_len (tot_time # rest) g h =
     (case uniform_fill 0 tot_time (replicate batch_len 0) g of
        Inl e \<Rightarrow> Inl e
      | Inr (u, g') \<Rightarrow>
          (let sim_time_seqs = sort u;
               sim_inter_time = inter_arrival batch_len sim_time_seqs
           in case np_shuffle sim_inter_time h of
                (shuffled, h') \<Rightarrow>
                  (case unifrom_rows batch_len rest g' h' of
                     Inl e \<Rightarrow> Inl e
                   | Inr (rows, g'', h'') \<Rightarrow> Inr (shuffled # rows, g'', h''))))"

definition create_unifrom_d ::
  "real list list \<Rightarrow> torch_gen \<Rightarrow> np_gen \<Rightarrow> error + (real list list \<times> torch_gen \<times> np_gen)" where
  "create_unifrom_d event_times g h =
     (let batch_len = ncols event_times;
          tot_time_seqs = map sum_list event_times
      in case unifrom_rows batch_len tot_time_seqs g h of
           Inl e \<Rightarrow> Inl e
         | Inr (sim_inter_times, g', h') \<Rightarrow>
             (case torch_stack sim_inter_times of
                Inl e \<Rightarrow> Inl e
              | Inr t \<Rightarrow> Inr (t, g', h')))"

text \<open>
  \<^verbatim>\<open>LogLikelihoodLoss.create_unif_d(batch_length, total_time_seqs)\<close>. The loop runs once
  for every entry of \<^verbatim>\<open>total_time_seqs\<close>; its body draws a row with \<^verbatim>\<open>torch.rand\<close>
  and overwrites it with \<^verbatim>\<open>uniform_(0, total_time_seqs[0])\<close>.
\<close>

fun unif_d_rows ::
  "nat \<Rightarrow> real list \<Rightarrow> real list \<Rightarrow> torch_gen \<Rightarrow> error + (vec list \<times> torch_gen)" where
  "unif_d_rows batch_length total_time_seqs [] g = Inr ([], g)"
| "unif_d_rows batch_length total_time_seqs (tot_time # rest) g =
     (case torch_rand batch_length g of
        (r, g1) \<Rightarrow>
          (case nth_err total_time_seqs 0 of
             Inl e \<Rightarrow> Inl e
           | Inr t0 \<Rightarrow>
               (case uniform_fill 0 t0 r g1 of
                  Inl e \<Rightarrow> Inl e
                | Inr (u, g2) \<Rightarrow>
                    (case unif_d_rows batch_length total_time_seqs rest g2 of
                       Inl e \<Rightarrow> Inl e
                     | Inr (rows, g3) \<Rightarrow> Inr (u # rows, g3)))))"

definition create_unif_d ::
  "nat \<Rightarrow> real list \<Rightarrow> torch_gen \<Rightarrow> error + (real list list \<times> torch_gen)" where
  "create_unif_d batch_length total_time_seqs g =
     (case unif_d_rows batch_length total_time_seqs total_time_seqs g of
        Inl e \<Rightarrow> Inl e
      | Inr (rows, g') \<Rightarrow>
          (case torch_stack rows of
             Inl e \<Rightarrow> Inl e
           | Inr sim_time_seqs \<Rightarrow> Inr (transpose10 batch_length sim_time_seqs, g')))"

section \<open>The collaborators\<close>

text \<open>
  The network is not part of this file; its layers are parameters. Each acts on one
  sequence's vector: \<open>intensity_layer\<close> maps a hidden state to the intensities of the event
  types, \<open>decay_cell c c_target output decay duration\<close> returns the decayed cell and
  hidden state, \<open>CTLSTM_cell x h c c_target\<close> returns the cell, its target, the output
  gate and the decay rate. On a batch they act on every sequence by itself. Their results
  are finite numbers.
\<close>

record model =
  hidden_size :: nat
  type_size :: nat
  Embedding :: "int \<Rightarrow> vec"
  CTLSTM_cell :: "vec \<Rightarrow> vec \<Rightarrow> vec \<Rightarrow> vec \<Rightarrow> vec \<times> vec \<times> vec \<times> vec"
  decay_cell :: "vec \<Rightarrow> vec \<Rightarrow> vec \<Rightarrow> vec \<Rightarrow> real \<Rightarrow> vec \<times> vec"
  intensity_layer :: "vec \<Rightarrow> vec"

text \<open>
  The argument \<^verbatim>\<open>output\<close> of the loss after its re-stacking: five tensors of shape
  (sequence position, batch index, hidden unit), as the source's comment has it.
\<close>

record decay_states =
  hidden_t :: "vec list list"
  cell_t :: "vec list list"
  cell_target_t :: "vec list list"
  output_t :: "vec list list"
  decay_t :: "vec list list"

section \<open>The log-likelihood loss\<close>

text \<open>
  Index tensors of an advanced index are broadcast against each other: equal lengths pair
  up, a tensor of one element is repeated, anything else raises.
\<close>

definition broadcast2 :: "'a list \<Rightarrow> 'b list \<Rightarrow> error + ('a \<times> 'b) list" where
  "broadcast2 xs ys =
     (if length xs = length ys then Inr (zip xs ys)
      else if length ys = 1 then Inr (map (\<lambda>x. (x, hd ys)) xs)
      else if length xs = 1 then Inr (map (\<lambda>y. (hd xs, y)) ys)
      else Inl IndexError)"

text \<open>\<^verbatim>\<open>t[arr, idx, pos_events]\<close> and \<^verbatim>\<open>t[arr, idx, :]\<close>.\<close>

definition index3 :: "'a list list list \<Rightarrow> nat list \<Rightarrow> nat \<Rightarrow> int list \<Rightarrow> error + 'a list" where
  "index3 t arr idx pos_events =
     (case broadcast2 arr pos_events of
        Inl e \<Rightarrow> Inl e
      | Inr pairs \<Rightarrow>
          sequence_err (map (\<lambda>(p, k).
            case nth_err t p of
              Inl e \<Rightarrow> Inl e
            | Inr batch \<Rightarrow> (case nth_err batch idx of Inl e \<Rightarrow> Inl e | Inr v \<Rightarrow> py_nth v k)) pairs))"

definition index_rows :: "'a list list list \<Rightarrow> nat list \<Rightarrow> nat \<Rightarrow> error + 'a list list" where
  "index_rows t arr idx =
     sequence_err (map (\<lambda>p.
       case nth_err t p of Inl e \<Rightarrow> Inl e | Inr batch \<Rightarrow> nth_err batch idx) arr)"

text \<open>
  The body of the first loop: what the sequence at batch index \<open>idx\<close> adds to
  \<^verbatim>\<open>original_loglikelihood\<close>.
\<close>

definition event_term :: "tfloat list list list \<Rightarrow> nat \<Rightarrow> int list \<Rightarrow> nat \<Rightarrow> error + tfloat" where
  "event_term log_intensity idx event_seq seq_len =
     (let arr = [0..<seq_len];
          pos_events = slice event_seq 1 (seq_len + 1)
      in case index3 log_intensity arr idx pos_events of
           Inl e \<Rightarrow> Inl e
         | Inr picked \<Rightarrow> Inr (tsum picked))"

text \<open>
  The body of the last loop: what the sequence at batch index \<open>idx\<close> adds to
  \<^verbatim>\<open>simulated_likelihood\<close>.
\<close>

definition integral_term :: "vec list list \<Rightarrow> nat \<Rightarrow> real \<Rightarrow> nat \<Rightarrow> error + tfloat" where
  "integral_term sim_intensity idx total_time seq_len =
     (let mc_coefficient = tdiv total_time (real seq_len);
          arr = [0..<seq_len]
      in case index_rows sim_intensity arr idx of
           Inl e \<Rightarrow> Inl e
         | Inr rows \<Rightarrow> Inr (tmul mc_coefficient (Some (sum_list (map sum_list rows)))))"

text \<open>
  \<^verbatim>\<open>acc = 0; for idx, x in enumerate(xs): acc += f(idx, x)\<close>, the shape of both loops.
\<close>

fun accumulate ::
  "(nat \<Rightarrow> 'a \<Rightarrow> error + tfloat) \<Rightarrow> nat \<Rightarrow> 'a list \<Rightarrow> tfloat \<Rightarrow> error + tfloat" where
  "accumulate f idx [] acc = Inr acc"
| "accumulate f idx (x # xs) acc =
     (case f idx x of
        Inl e \<Rightarrow> Inl e
      | Inr v \<Rightarrow> accumulate f (Suc idx) xs (tadd acc v))"

text \<open>
  The loop over the rows of \<^verbatim>\<open>sim_time_seqs\<close> (one row for every sequence position):
  the states at position \<open>idx\<close> are decayed by the row's durations, sequence by sequence.
\<close>

definition decay_batch ::
  "model \<Rightarrow> vec list \<Rightarrow> vec list \<Rightarrow> vec list \<Rightarrow> vec list \<Rightarrow> real list \<Rightarrow> error + vec list" where
  "decay_batch m c ct ou d durations =
     (if length c = length durations \<and> length ct = length durations \<and>
         length ou = length durations \<and> length d = length durations
      then Inr (map (\<lambda>b. snd (decay_cell m (c ! b) (ct ! b) (ou ! b) (d ! b) (durations ! b)))
                  [0..<length durations])
      else Inl RuntimeError)"

fun decay_loop :: "model \<Rightarrow> decay_states \<Rightarrow> nat \<Rightarrow> real list list \<Rightarrow> error + vec list list" where
  "decay_loop m st idx [] = Inr []"
| "decay_loop m st idx (sim_duration # rest) =
     (case nth_err (cell_t st) idx of Inl e \<Rightarrow> Inl e | Inr c \<Rightarrow>
      (case nth_err (cell_target_t st) idx of Inl e \<Rightarrow> Inl e | Inr ct \<Rightarrow>
       (case nth_err (output_t st) idx of Inl e \<Rightarrow> Inl e | Inr ou \<Rightarrow>
        (case nth_err (decay_t st) idx of Inl e \<Rightarrow> Inl e | Inr d \<Rightarrow>
         (case decay_batch m c ct ou d sim_duration of Inl e \<Rightarrow> Inl e | Inr h_t_sim \<Rightarrow>
          (case decay_loop m st (Suc idx) rest of
             Inl e \<Rightarrow> Inl e
           | Inr hs \<Rightarrow> Inr (h_t_sim # hs)))))))"

text \<open>
  \<^verbatim>\<open>LogLikelihoodLoss.forward\<close>. The argument \<^verbatim>\<open>time_seqs\<close> is not read by the source.
\<close>

definition forward ::
  "model \<Rightarrow> int list list \<Rightarrow> real list list \<Rightarrow> nat list \<Rightarrow> real list \<Rightarrow> decay_states \<Rightarrow>
     torch_gen \<Rightarrow> error + (tfloat \<times> torch_gen)" where
  "forward m event_seqs time_seqs seqs_length total_time_seqs st g =
     (let batch_length = ncols event_seqs;
          intensity = map (map (intensity_layer m)) (hidden_t st);
          log_intensity = map (map (map tlog)) intensity
      in case accumulate (\<lambda>idx (event_seq, seq_len). event_term log_intensity idx event_seq seq_len)
                0 (zip event_seqs seqs_length) (Some 0) of
           Inl e \<Rightarrow> Inl e
         | Inr original_loglikelihood \<Rightarrow>
          (case create_unif_d batch_length total_time_seqs g of
             Inl e \<Rightarrow> Inl e
           | Inr (sim_time_seqs, g') \<Rightarrow>
            (case decay_loop m st 0 sim_time_seqs of
               Inl e \<Rightarrow> Inl e
             | Inr hidden_t_sim \<Rightarrow>
              (case torch_stack hidden_t_sim of
                 Inl e \<Rightarrow> Inl e
               | Inr stacked \<Rightarrow>
                  (let sim_intensity = map (map (intensity_layer m)) stacked
                   in case accumulate
                             (\<lambda>idx (total_time, seq_len).
                                integral_term sim_intensity idx total_time seq_len)
                             0 (zip total_time_seqs seqs_length) (Some 0) of
                        Inl e \<Rightarrow> Inl e
                      | Inr simulated_likelihood \<Rightarrow>
                          Inr (tneg (tsub original_loglikelihood simulated_likelihood), g'))))))"

section \<open>The event predictor\<close>

text \<open>
  \<^verbatim>\<open>torch.linspace(a, b, steps)\<close> and \<^verbatim>\<open>torch.cumsum(x, dim=0)\<close> (the running sums,
  each including its own entry).
\<close>

definition linspace :: "real \<Rightarrow> real \<Rightarrow> nat \<Rightarrow> real list" where
  "linspace a b steps =
     (if steps = 1 then [a]
      else map (\<lambda>i. a + real i * ((b - a) / real (steps - 1))) [0..<steps])"

fun cumsum_from :: "real \<Rightarrow> real list \<Rightarrow> real list" where
  "cumsum_from acc [] = []"
| "cumsum_from acc (x # xs) = (acc + x) # cumsum_from (acc + x) xs"

definition cumsum :: "real list \<Rightarrow> real list" where
  "cumsum xs = cumsum_from 0 xs"

text \<open>\<^verbatim>\<open>(timestep * 0.5 * (t[1:] + t[:-1])).sum()\<close>.\<close>

definition trapeze :: "real \<Rightarrow> real list \<Rightarrow> real" where
  "trapeze timestep t = sum_list (map2 (\<lambda>a b. timestep * 0.5 * (a + b)) (drop 1 t) (butlast t))"

text \<open>\<^verbatim>\<open>x.sum(dim=0)\<close> of a batch of rows with floating-point entries.\<close>

definition sum_dim0 :: "tfloat list list \<Rightarrow> tfloat list" where
  "sum_dim0 rows = (case rows of [] \<Rightarrow> [] | r # rs \<Rightarrow> foldl (map2 tadd) r rs)"

text \<open>
  \<^verbatim>\<open>x.argmax()\<close>: the index of the first greatest entry; an empty tensor raises. torch
  takes \<^verbatim>\<open>nan\<close> for the greatest value, so with a \<^verbatim>\<open>nan\<close> among the entries the result
  is the index of the first one. The scores that the predictor passes are finite or
  \<^verbatim>\<open>nan\<close> (the quotient by a zero total intensity times the density, which is zero
  there), so an entry \<open>None\<close> is a \<^verbatim>\<open>nan\<close> here.
\<close>

fun argmax_loop :: "nat \<Rightarrow> real \<Rightarrow> nat \<Rightarrow> real list \<Rightarrow> nat" where
  "argmax_loop best bv i [] = best"
| "argmax_loop best bv i (x # xs) =
     (if bv < x then argmax_loop i x (Suc i) xs else argmax_loop best bv (Suc i) xs)"

fun first_nan :: "nat \<Rightarrow> tfloat list \<Rightarrow> nat option" where
  "first_nan i [] = None"
| "first_nan i (x # xs) = (if x = None then Some i else first_nan (Suc i) xs)"

definition argmax :: "tfloat list \<Rightarrow> error + nat" where
  "argmax xs =
     (case xs of
        [] \<Rightarrow> Inl RuntimeError
      | x # rest \<Rightarrow>
          (case first_nan 0 xs of
             Some k \<Rightarrow> Inr k
           | None \<Rightarrow> Inr (argmax_loop 0 (the x) 1 (map the rest))))"

text \<open>
  The prediction made at one loop position of \<^verbatim>\<open>predict_event\<close> (the statements under
  "Make prediction for the next event time and type"), from the hidden state \<open>h_t\<close> and
  the decay rate after the last event read. The step \<^verbatim>\<open>hmax / n_samples\<close> is a division
  of Python numbers, which raises at zero.
\<close>

definition time_grid :: "real \<Rightarrow> nat \<Rightarrow> real list" where
  "time_grid hmax n_samples = linspace 0 hmax (n_samples + 1)"

definition grid_intensity :: "model \<Rightarrow> vec \<Rightarrow> vec \<Rightarrow> real list \<Rightarrow> vec list" where
  "grid_intensity m h_t decay time_between_events =
     (let hidden_vals = map (\<lambda>t. map2 (\<lambda>h d. h * exp (- d * t)) h_t decay) time_between_events
      in map (intensity_layer m) hidden_vals)"

definition survival_density :: "real \<Rightarrow> real list \<Rightarrow> real list" where
  "survival_density timestep intensity_sum =
     (let density = cumsum (map (\<lambda>s. timestep * s) intensity_sum)
      in map2 (\<lambda>s c. s * exp (- c)) intensity_sum density)"

definition type_scores :: "real \<Rightarrow> vec list \<Rightarrow> real list \<Rightarrow> real list \<Rightarrow> tfloat list" where
  "type_scores timestep intensity intensity_sum density =
     (let P = map2 (\<lambda>(row, s) d. map (\<lambda>x. tmul (tdiv x s) (Some d)) row)
                (zip intensity intensity_sum) density
      in sum_dim0 (map2 (map2 (\<lambda>a b. tmul (Some (timestep * 0.5)) (tadd a b)))
                     (drop 1 P) (butlast P)))"

definition predict_next ::
  "model \<Rightarrow> vec \<Rightarrow> vec \<Rightarrow> real \<Rightarrow> nat \<Rightarrow> error + (real \<times> nat)" where
  "predict_next m h_t decay hmax n_samples =
     (if n_samples = 0 then Inl ZeroDivisionError
      else
        (let timestep = hmax / real n_samples;
             time_between_events = time_grid hmax n_samples;
             intensity = grid_intensity m h_t decay time_between_events;
             intensity_sum = map sum_list intensity;
             density = survival_density timestep intensity_sum;
             t = map2 (\<lambda>a b. a * b) time_between_events density;
             pred_dt = trapeze timestep t
         in case argmax (type_scores timestep intensity intensity_sum density) of
              Inl e \<Rightarrow> Inl e
            | Inr pred_type \<Rightarrow> Inr (pred_dt, pred_type)))"

text \<open>
  \<^verbatim>\<open>predict_event(model, seq_time, seq_events, device, hmax, n_samples)\<close>: the loop
  \<^verbatim>\<open>for i in range(1, seq_length)\<close> over the remaining positions, with the recurrent
  state and the four lists built so far.
\<close>

type_synonym predictions = "real list \<times> real list \<times> int list \<times> nat list"

fun predict_loop ::
  "model \<Rightarrow> real list \<Rightarrow> int list \<Rightarrow> real \<Rightarrow> nat \<Rightarrow> nat list \<Rightarrow> vec \<times> vec \<times> vec \<Rightarrow>
     predictions \<Rightarrow> error + predictions" where
  "predict_loop m seq_time seq_events hmax n_samples [] state acc = Inr acc"
| "predict_loop m seq_time seq_events hmax n_samples (i # rest) state acc =
     (case state of (h_t, c_t, c_target) \<Rightarrow>
      (case acc of (times_gt, times_pred, types_gt, types_pred) \<Rightarrow>
       (case nth_err seq_events i of Inl e \<Rightarrow> Inl e | Inr ev \<Rightarrow>
        (case CTLSTM_cell m (Embedding m ev) h_t c_t c_target of
           (c_t1, c_target1, output, decay) \<Rightarrow>
         (case nth_err seq_time i of Inl e \<Rightarrow> Inl e | Inr dt \<Rightarrow>
          (let c_t2 = map2 (\<lambda>c d. c * exp (- d * dt)) c_t1 decay;
               h_t2 = map2 (\<lambda>ou c. ou * tanh c) output c_t2
           in case nth_err seq_events (i + 1) of Inl e \<Rightarrow> Inl e | Inr gt_type \<Rightarrow>
              (case nth_err seq_time (i + 1) of Inl e \<Rightarrow> Inl e | Inr gt_dt \<Rightarrow>
               (case predict_next m h_t2 decay hmax n_samples of
                  Inl e \<Rightarrow> Inl e
                | Inr (pred_dt, pred_type) \<Rightarrow>
                    predict_loop m seq_time seq_events hmax n_samples rest (h_t2, c_t2, c_target1)
                      (if 1 < i
                       then (times_gt @ [gt_dt], times_pred @ [pred_dt],
                             types_gt @ [gt_type], types_pred @ [pred_type])
                       else acc)))))))))"

definition predict_event ::
  "model \<Rightarrow> real list \<Rightarrow> int list \<Rightarrow> real \<Rightarrow> nat \<Rightarrow> error + predictions" where
  "predict_event m seq_time seq_events hmax n_samples =
     (let seq_length = int (length seq_time) - 1;
          zeros = replicate (hidden_size m) 0
      in predict_loop m seq_time seq_events hmax n_samples [1..<nat seq_length]
           (zeros, zeros, zeros) ([], [], [], []))"

section \<open>The predictor in the words of the specification\<close>

text \<open>
  The predictor as the specification words it: the grid point \<open>i\<close> of \<open>n + 1\<close> evenly spaced
  points over \<open>[0, hmax]\<close>, the total intensity at a time after the last event, the
  cumulative hazard as the running sum of the total intensities up to the grid point scaled
  by the step, the survival density, and the trapezoidal integral of \<open>t * density t\<close>
  over the grid.
\<close>

definition spec_grid_point :: "real \<Rightarrow> nat \<Rightarrow> nat \<Rightarrow> real" where
  "spec_grid_point hmax n i = real i * (hmax / real n)"

definition spec_total_intensity :: "model \<Rightarrow> vec \<Rightarrow> vec \<Rightarrow> real \<Rightarrow> real" where
  "spec_total_intensity m h_t decay t =
     sum_list (intensity_layer m (map2 (\<lambda>h d. h * exp (- d * t)) h_t decay))"

definition spec_cumulative_hazard :: "real \<Rightarrow> (nat \<Rightarrow> real) \<Rightarrow> nat \<Rightarrow> real" where
  "spec_cumulative_hazard step lam i = step * (\<Sum>k\<le>i. lam k)"

definition spec_density :: "real \<Rightarrow> (nat \<Rightarrow> real) \<Rightarrow> nat \<Rightarrow> real" where
  "spec_density step lam i = lam i * exp (- spec_cumulative_hazard step lam i)"

definition spec_expected_time :: "real \<Rightarrow> nat \<Rightarrow> (nat \<Rightarrow> real) \<Rightarrow> real" where
  "spec_expected_time hmax n lam =
     (\<Sum>i<n. (hmax / real n) *
        ((spec_grid_point hmax n i * spec_density (hmax / real n) lam i +
          spec_grid_point hmax n (i + 1) * spec_density (hmax / real n) lam (i + 1)) / 2))"

section \<open>A small network for concrete runs\<close>

text \<open>
  One hidden unit and one event type. The decay is the exponential interpolation between
  the cell and its target, the hidden state is the gated \<open>tanh\<close> of the cell, and the
  intensity is the exponential of the sum of the hidden units. \<open>silent_model\<close> is the
  same network with an intensity layer that returns 0 for each of two event types.
\<close>

definition toy_model :: model where
  "toy_model =
     \<lparr>hidden_size = 1, type_size = 1,
      Embedding = (\<lambda>k. [real_of_int k]),
      CTLSTM_cell = (\<lambda>x h c c_target. (map2 (\<lambda>a b. a + b) x c, c_target, [1], [1])),
      decay_cell = (\<lambda>c c_target ou d duration.
        (let c_t = map2 (\<lambda>(a, b) r. b + (a - b) * exp (- r * duration)) (zip c c_target) d
         in (c_t, map2 (\<lambda>g a. g * tanh a) ou c_t))),
      intensity_layer = (\<lambda>h. [exp (sum_list h)])\<rparr>"

definition silent_model :: model where
  "silent_model = toy_model\<lparr>type_size := 2, intensity_layer := (\<lambda>h. [0, 0])\<rparr>"

text \<open>A generator that delivers the draw 1/2 every time, and one for numpy that delivers 0.\<close>

definition half_gen :: torch_gen where
  "half_gen = (\<lambda>k. 1 / 2)"

definition zero_np_gen :: np_gen where
  "zero_np_gen = (\<lambda>k. 0)"



text \<open>
  Decay states for two sequences and two positions of the small network: hidden state 0,
  cell 1, cell target 0, output gate 1 and decay rate 1 everywhere.
\<close>

definition toy_states :: decay_states where
  "toy_states =
     \<lparr>hidden_t = [[[0], [0]], [[0], [0]]],
      cell_t = [[[1], [1]], [[1], [1]]],
      cell_target_t = [[[0], [0]], [[0], [0]]],
      output_t = [[[1], [1]], [[1], [1]]],
      decay_t = [[[1], [1]], [[1], [1]]]\<rparr>"

section \<open>The padding adds one leading element\<close>

lemma map2_append_column: "map2 (@) (reshape_column pad) rows = map2 (#) pad rows"
  unfolding reshape_column_def
proof (induction pad arbitrary: rows)
  case Nil
  show ?case by simp
next
  case (Cons p pad)
  show ?case by (cases rows) (simp_all add: Cons.IH)
qed

lemma cat_column:
  "length pad = length rows \<Longrightarrow> cat_dim1 (reshape_column pad) rows = Inr (map2 (#) pad rows)"
  by (simp add: cat_dim1_def map2_append_column) (simp add: reshape_column_def)

lemma map2_const_column: "map2 (#) (map (\<lambda>_. c) rows) rows = map ((#) c) rows"
  by (induction rows) simp_all

lemma int64_id: "in_int64 k \<Longrightarrow> int64 k = k"
  by (simp add: int64_def in_int64_def)

lemma map_int64_id: "list_all in_int64 r \<Longrightarrow> map int64 r = r"
  by (induction r) (simp_all add: int64_id)

lemma map_map_int64_id: "list_all (list_all in_int64) rows \<Longrightarrow> map (map int64) rows = rows"
  by (induction rows) (simp_all add: map_int64_id)

text \<open>
  Claim C9. For a batch with at least one sequence whose rows have at least one entry (the
  source reads column 0 of both tensors), with event types and a type vocabulary size \<open>k\<close>
  that are 64-bit integers, \<open>BeginningOfStream\<close> returns every row of event types with the
  one element \<open>k\<close> put in front, every row of times with the one element 0 put in front,
  the original entries following unchanged one position to the right, and the total times
  and lengths exactly as they were given.
\<close>

theorem BeginningOfStream_pads:
  assumes "seq_events \<noteq> []" and "seq_time \<noteq> []"
    and "list_all (\<lambda>r. 0 < length r) seq_events" and "list_all (\<lambda>r. 0 < length r) seq_time"
    and "in_int64 k" and "list_all (list_all in_int64) seq_events"
  shows "BeginningOfStream (seq_events, seq_time, seq_tot_time, seqs_len) k =
           Inr (map ((#) k) seq_events, map ((#) 0) seq_time, seq_tot_time, seqs_len)"
proof -
  have ev: "column0 seq_events = Inr (map hd seq_events)"
    and tm: "column0 seq_time = Inr (map hd seq_time)"
    using assms(1-4) by (simp_all add: column0_def)
  have pe: "map (\<lambda>z. int64 (z + k)) (zeros_like (map hd seq_events)) = map (\<lambda>_. k) seq_events"
    using assms(5) by (simp add: zeros_like_def int64_id)
  have pt: "(zeros_like (map hd seq_time) :: real list) = map (\<lambda>_. 0) seq_time"
    by (simp add: zeros_like_def)
  have "list_all (list_all in_int64) (map ((#) k) seq_events)"
    using assms(5,6) by (simp add: list_all_iff)
  then have long: "map (map int64) (map ((#) k) seq_events) = map ((#) k) seq_events"
    by (rule map_map_int64_id)
  show ?thesis
    by (simp only: BeginningOfStream_def prod.case ev tm pe pt sum.case Let_def cat_column
        length_map map2_const_column long)
qed

theorem BeginningOfStream_pads_witness:
  "BeginningOfStream ([[2, 0, 1]], [[1, 2, 1 / 2]], [7 / 2 :: real], [3 :: nat]) 3 =
     Inr ([[3, 2, 0, 1]], [[0, 1, 2, 1 / 2]], [7 / 2], [3])"
  using BeginningOfStream_pads [of "[[2, 0, 1]]" "[[1, 2, 1 / 2]]" 3 "[7 / 2 :: real]" "[3 :: nat]"]
  by (simp add: in_int64_def)

section \<open>The predictor records from the third position on\<close>

lemma length_linspace: "length (linspace a b steps) = steps"
  by (simp add: linspace_def)

lemma length_time_grid: "length (time_grid hmax n) = n + 1"
  by (simp add: time_grid_def length_linspace)

lemma length_cumsum_from: "length (cumsum_from acc xs) = length xs"
  by (induction xs arbitrary: acc) simp_all

lemma length_survival_density: "length (survival_density ts s) = length s"
  by (simp add: survival_density_def cumsum_def length_cumsum_from)

lemma length_grid_intensity: "length (grid_intensity m h d grid) = length grid"
  by (simp add: grid_intensity_def)

lemma grid_intensity_nonempty:
  "\<forall>h. intensity_layer m h \<noteq> [] \<Longrightarrow> list_all (\<lambda>r. r \<noteq> []) (grid_intensity m h d grid)"
  by (simp add: grid_intensity_def list_all_iff)

lemma foldl_map2_nonempty:
  "r \<noteq> [] \<Longrightarrow> list_all (\<lambda>r. r \<noteq> []) rs \<Longrightarrow> foldl (map2 f) r rs \<noteq> []"
proof (induction rs arbitrary: r)
  case Nil
  then show ?case by simp
next
  case (Cons a rs)
  from Cons.prems have "map2 f r a \<noteq> []" by (cases r; cases a) simp_all
  with Cons show ?case by simp
qed

lemma sum_dim0_nonempty:
  "rows \<noteq> [] \<Longrightarrow> list_all (\<lambda>r. r \<noteq> []) rows \<Longrightarrow> sum_dim0 rows \<noteq> []"
  by (cases rows) (simp_all add: sum_dim0_def foldl_map2_nonempty)

lemma type_scores_nonempty:
  assumes "list_all (\<lambda>r. r \<noteq> []) intensity" "2 \<le> length intensity"
    "length s = length intensity" "length dens = length intensity"
  shows "type_scores ts intensity s dens \<noteq> []"
proof -
  define P where "P = map2 (\<lambda>(row, s) d. map (\<lambda>x. tmul (tdiv x s) (Some d)) row) (zip intensity s) dens"
  have lenP: "length P = length intensity" using assms by (simp add: P_def)
  have neP: "list_all (\<lambda>r. r \<noteq> []) P"
    using assms(1) unfolding P_def list_all_iff
    by (auto simp: in_set_zip list_all_length)
  define Q where "Q = map2 (map2 (\<lambda>a b. tmul (Some (ts * 0.5)) (tadd a b))) (drop 1 P) (butlast P)"
  have "length Q = length intensity - 1" using lenP by (simp add: Q_def)
  with assms(2) have Qne: "Q \<noteq> []" by auto
  have "list_all (\<lambda>r. r \<noteq> []) Q"
    unfolding Q_def list_all_length
  proof (intro allI impI)
    fix i assume i: "i < length (map2 (map2 (\<lambda>a b. tmul (Some (ts * 0.5)) (tadd a b))) (drop 1 P) (butlast P))"
    then have i1: "i + 1 < length P" by simp
    have a: "drop 1 P ! i \<noteq> []" using neP i1 by (simp add: list_all_length)
    have b: "butlast P ! i \<noteq> []" using neP i1 by (simp add: list_all_length nth_butlast)
    from a b show "map2 (map2 (\<lambda>a b. tmul (Some (ts * 0.5)) (tadd a b))) (drop 1 P) (butlast P) ! i \<noteq> []"
      using i by (cases "drop 1 P ! i"; cases "butlast P ! i") simp_all
  qed
  with Qne have "sum_dim0 Q \<noteq> []" by (rule sum_dim0_nonempty)
  then show ?thesis by (simp add: type_scores_def Q_def P_def Let_def)
qed

lemma argmax_returns: "xs \<noteq> [] \<Longrightarrow> \<exists>k. argmax xs = Inr k"
  by (cases xs) (auto simp: argmax_def split: option.splits)

lemma predict_next_returns:
  assumes "0 < n_samples" "\<forall>h. intensity_layer m h \<noteq> []"
  shows "\<exists>pred_dt pred_type. predict_next m h_t decay hmax n_samples = Inr (pred_dt, pred_type)"
proof -
  let ?grid = "time_grid hmax n_samples"
  let ?int = "grid_intensity m h_t decay ?grid"
  let ?ts = "hmax / real n_samples"
  have "type_scores ?ts ?int (map sum_list ?int) (survival_density ?ts (map sum_list ?int)) \<noteq> []"
    using assms
    by (intro type_scores_nonempty grid_intensity_nonempty)
       (simp_all add: length_grid_intensity length_time_grid length_survival_density)
  from argmax_returns [OF this] obtain k where
    "argmax (type_scores ?ts ?int (map sum_list ?int) (survival_density ?ts (map sum_list ?int))) = Inr k" ..
  with assms(1) show ?thesis by (simp add: predict_next_def Let_def)
qed

lemma predict_loop_records:
  assumes "0 < n_samples" "\<forall>h. intensity_layer m h \<noteq> []"
    and "list_all (\<lambda>i. i + 1 < length seq_time \<and> i + 1 < length seq_events) ixs"
  shows "\<exists>times_pred types_pred.
           predict_loop m seq_time seq_events hmax n_samples ixs state (a, b, c, d) =
             Inr (a @ map (\<lambda>i. seq_time ! (i + 1)) (filter (\<lambda>i. 1 < i) ixs), times_pred,
                  c @ map (\<lambda>i. seq_events ! (i + 1)) (filter (\<lambda>i. 1 < i) ixs), types_pred) \<and>
           length times_pred = length b + length (filter (\<lambda>i. 1 < i) ixs) \<and>
           length types_pred = length d + length (filter (\<lambda>i. 1 < i) ixs)"
  using assms(3)
proof (induction ixs arbitrary: state a b c d)
  case Nil
  show ?case by simp
next
  case (Cons i ixs)
  obtain h_t c_t c_target where st: "state = (h_t, c_t, c_target)" by (cases state) auto
  obtain c1 ct1 ou dc where cell:
    "CTLSTM_cell m (Embedding m (seq_events ! i)) h_t c_t c_target = (c1, ct1, ou, dc)"
    by (cases "CTLSTM_cell m (Embedding m (seq_events ! i)) h_t c_t c_target") auto
  let ?c2 = "map2 (\<lambda>c d. c * exp (- d * (seq_time ! i))) c1 dc"
  let ?h2 = "map2 (\<lambda>ou c. ou * tanh c) ou ?c2"
  from predict_next_returns [OF assms(1,2)] obtain pdt pty where
    pn: "predict_next m ?h2 dc hmax n_samples = Inr (pdt, pty)" by blast
  from Cons.prems have rest:
    "list_all (\<lambda>i. i + 1 < length seq_time \<and> i + 1 < length seq_events) ixs"
    by simp
  from Cons.prems have
    e1: "nth_err seq_events i = Inr (seq_events ! i)" and
    e2: "nth_err seq_time i = Inr (seq_time ! i)" and
    e3: "nth_err seq_events (i + 1) = Inr (seq_events ! (i + 1))" and
    e4: "nth_err seq_time (i + 1) = Inr (seq_time ! (i + 1))"
    by (simp_all add: nth_err_def)
  have step:
    "predict_loop m seq_time seq_events hmax n_samples (i # ixs) state (a, b, c, d) =
       predict_loop m seq_time seq_events hmax n_samples ixs (?h2, ?c2, ct1)
         (if 1 < i
          then (a @ [seq_time ! (i + 1)], b @ [pdt], c @ [seq_events ! (i + 1)], d @ [pty])
          else (a, b, c, d))"
    by (simp only: predict_loop.simps st cell e1 e2 e3 e4 pn prod.case sum.case Let_def)
  show ?case
  proof (cases "1 < i")
    case True
    from Cons.IH [OF rest, of "(?h2, ?c2, ct1)" "a @ [seq_time ! (i + 1)]" "b @ [pdt]"
        "c @ [seq_events ! (i + 1)]" "d @ [pty]"]
    show ?thesis unfolding step using True by simp
  next
    case False
    from Cons.IH [OF rest, of "(?h2, ?c2, ct1)" a b c d]
    show ?thesis unfolding step using False by simp
  qed
qed

lemma filter_upt_from_1: "filter (\<lambda>i. 1 < i) [1..<n] = [2..<n]"
proof (induction n)
  case 0
  show ?case by simp
next
  case (Suc n)
  then show ?case by (cases "n < 2") (auto simp: numeral_2_eq_2 less_Suc_eq)
qed

text \<open>
  Claim C10. For a padded sequence (as many event types as times), a positive number of
  grid samples and a network with at least one event type, \<open>predict_event\<close> returns
  without an error. With \<open>seq_length = length seq_time - 1\<close>, the ground truths recorded
  are those of the loop positions \<open>i\<close> with \<open>2 \<le> i \<le> seq_length - 1\<close>, in order, and
  nothing else is recorded: each of the four lists has \<open>max 0 (seq_length - 2)\<close> entries,
  so all four are empty when \<open>seq_length \<le> 2\<close>.
\<close>

theorem predict_event_records:
  assumes "length seq_events = length seq_time" and "0 < n_samples"
    and "\<forall>h. intensity_layer m h \<noteq> []"
  shows "\<exists>times_gt times_pred types_gt types_pred.
           predict_event m seq_time seq_events hmax n_samples =
             Inr (times_gt, times_pred, types_gt, types_pred) \<and>
           times_gt = map (\<lambda>i. seq_time ! (i + 1)) [2..<length seq_time - 1] \<and>
           types_gt = map (\<lambda>i. seq_events ! (i + 1)) [2..<length seq_time - 1] \<and>
           int (length times_gt) = max 0 (int (length seq_time) - 1 - 2) \<and>
           int (length times_pred) = max 0 (int (length seq_time) - 1 - 2) \<and>
           int (length types_gt) = max 0 (int (length seq_time) - 1 - 2) \<and>
           int (length types_pred) = max 0 (int (length seq_time) - 1 - 2) \<and>
           (int (length seq_time) - 1 \<le> 2 \<longrightarrow>
              predict_event m seq_time seq_events hmax n_samples = Inr ([], [], [], []))"
proof -
  let ?ixs = "[1..<nat (int (length seq_time) - 1)]"
  have ixs: "?ixs = [1..<length seq_time - 1]" by (simp add: nat_diff_distrib')
  have rng: "list_all (\<lambda>i. i + 1 < length seq_time \<and> i + 1 < length seq_events) ?ixs"
    using assms(1) by (auto simp: list_all_iff)
  from predict_loop_records [OF assms(2,3) rng, of hmax
      "(replicate (hidden_size m) 0, replicate (hidden_size m) 0, replicate (hidden_size m) 0)"
      "[]" "[]" "[]" "[]"]
  obtain times_pred types_pred where
    run: "predict_loop m seq_time seq_events hmax n_samples ?ixs
            (replicate (hidden_size m) 0, replicate (hidden_size m) 0, replicate (hidden_size m) 0)
            ([], [], [], []) =
          Inr (map (\<lambda>i. seq_time ! (i + 1)) (filter (\<lambda>i. 1 < i) ?ixs), times_pred,
               map (\<lambda>i. seq_events ! (i + 1)) (filter (\<lambda>i. 1 < i) ?ixs), types_pred)"
    and lens: "length times_pred = length (filter (\<lambda>i. 1 < i) ?ixs)"
      "length types_pred = length (filter (\<lambda>i. 1 < i) ?ixs)"
    by auto
  have flt: "filter (\<lambda>i. 1 < i) ?ixs = [2..<length seq_time - 1]"
    unfolding ixs by (rule filter_upt_from_1)
  have cnt: "int (length [2..<length seq_time - 1]) = max 0 (int (length seq_time) - 1 - 2)"
    by auto
  have run': "predict_event m seq_time seq_events hmax n_samples =
      Inr (map (\<lambda>i. seq_time ! (i + 1)) [2..<length seq_time - 1], times_pred,
           map (\<lambda>i. seq_events ! (i + 1)) [2..<length seq_time - 1], types_pred)"
    using run unfolding flt by (simp add: predict_event_def Let_def)
  have lens': "length times_pred = length [2..<length seq_time - 1]"
    "length types_pred = length [2..<length seq_time - 1]"
    using lens unfolding flt by simp_all
  have short: "int (length seq_time) - 1 \<le> 2 \<longrightarrow>
      predict_event m seq_time seq_events hmax n_samples = Inr ([], [], [], [])"
    using lens' unfolding run' by auto
  show ?thesis
    using run' lens' cnt short by simp
qed

theorem predict_event_records_witness:
  "\<exists>times_pred types_pred.
     predict_event toy_model [0, 1, 2, 1 / 2] [1, 0, 0, 0] 40 1000 =
       Inr ([1 / 2], times_pred, [0], types_pred) \<and>
     length times_pred = 1 \<and> length types_pred = 1"
proof -
  have types: "\<forall>h. intensity_layer toy_model h \<noteq> []"
    by (simp add: toy_model_def)
  have upt: "[2..<length [0 :: real, 1, 2, 1 / 2] - 1] = [2]"
    by (simp add: upt_rec)
  from predict_event_records [of "[1, 0, 0, 0]" "[0, 1, 2, 1 / 2]" 1000 toy_model 40, OF _ _ types]
  show ?thesis unfolding upt by auto
qed

section \<open>The predicted time is the trapezoidal integral\<close>

lemma time_grid_nth:
  assumes "0 < n" "i \<le> n"
  shows "time_grid hmax n ! i = spec_grid_point hmax n i"
proof -
  have "map (\<lambda>i. 0 + real i * ((hmax - 0) / real (n + 1 - 1))) [0..<n + 1] ! i =
        0 + real (0 + i) * ((hmax - 0) / real (n + 1 - 1))"
    using assms(2) by (intro nth_map_upt) simp
  then show ?thesis
    using assms(1) by (simp add: time_grid_def linspace_def spec_grid_point_def del: upt_Suc)
qed

lemma cumsum_from_nth:
  "i < length xs \<Longrightarrow> cumsum_from acc xs ! i = acc + (\<Sum>k\<le>i. xs ! k)"
proof (induction xs arbitrary: acc i)
  case Nil
  then show ?case by simp
next
  case (Cons x xs)
  show ?case
  proof (cases i)
    case 0
    then show ?thesis by simp
  next
    case (Suc j)
    with Cons.prems have j: "j < length xs" by simp
    have "(\<Sum>k\<le>Suc j. (x # xs) ! k) = x + (\<Sum>k\<le>j. xs ! k)"
      by (simp add: sum.atMost_Suc_shift del: sum.atMost_Suc)
    with Cons.IH [OF j, of "acc + x"] Suc show ?thesis by simp
  qed
qed

lemma survival_density_nth:
  assumes "i < length s"
  shows "survival_density step s ! i = spec_density step (\<lambda>k. s ! k) i"
proof -
  have "cumsum (map (\<lambda>x. step * x) s) ! i = (\<Sum>k\<le>i. step * s ! k)"
    using assms by (simp add: cumsum_def cumsum_from_nth)
  also have "\<dots> = step * (\<Sum>k\<le>i. s ! k)"
    by (simp add: sum_distrib_left)
  finally show ?thesis
    using assms
    by (simp add: survival_density_def spec_density_def spec_cumulative_hazard_def
        length_cumsum_from cumsum_def)
qed

lemma trapeze_sum:
  "trapeze step t = (\<Sum>i<length t - 1. step * ((t ! i + t ! (i + 1)) / 2))"
proof -
  let ?zs = "map2 (\<lambda>a b. step * 0.5 * (a + b)) (drop 1 t) (butlast t)"
  have len: "length ?zs = length t - 1" by simp
  have "sum_list ?zs = (\<Sum>i = 0..<length ?zs. ?zs ! i)"
    by (rule sum_list_sum_nth)
  also have "\<dots> = (\<Sum>i = 0..<length t - 1. step * ((t ! i + t ! (i + 1)) / 2))"
    unfolding len by (rule sum.cong) (simp_all add: nth_butlast)
  finally show ?thesis by (simp add: trapeze_def atLeast0LessThan)
qed

lemma grid_intensity_nth:
  assumes "i < length grid"
  shows "sum_list (grid_intensity m h_t decay grid ! i) = spec_total_intensity m h_t decay (grid ! i)"
  using assms by (simp add: grid_intensity_def spec_total_intensity_def)

lemma predict_next_time:
  assumes "0 < n_samples"
    and "predict_next m h_t decay hmax n_samples = Inr (pred_dt, pred_type)"
  shows "pred_dt = spec_expected_time hmax n_samples
           (\<lambda>i. spec_total_intensity m h_t decay (spec_grid_point hmax n_samples i))"
proof -
  let ?n = n_samples
  let ?step = "hmax / real ?n"
  let ?grid = "time_grid hmax ?n"
  let ?int = "grid_intensity m h_t decay ?grid"
  let ?s = "map sum_list ?int"
  let ?dens = "survival_density ?step ?s"
  let ?t = "map2 (\<lambda>a b. a * b) ?grid ?dens"
  let ?lam = "\<lambda>i. spec_total_intensity m h_t decay (spec_grid_point hmax ?n i)"
  have dt: "pred_dt = trapeze ?step ?t"
    using assms by (simp add: predict_next_def Let_def split: sum.splits)
  have len_s: "length ?s = ?n + 1"
    by (simp add: length_grid_intensity length_time_grid)
  have len_t: "length ?t = ?n + 1"
    by (simp add: length_survival_density length_grid_intensity length_time_grid)
  have s_nth: "?s ! i = ?lam i" if "i \<le> ?n" for i
    using that assms(1)
    by (simp add: length_grid_intensity length_time_grid grid_intensity_nth time_grid_nth)
  have dens_nth: "?dens ! i = spec_density ?step ?lam i" if "i \<le> ?n" for i
  proof -
    have "?dens ! i = spec_density ?step (\<lambda>k. ?s ! k) i"
      using that len_s by (intro survival_density_nth) simp
    also have "\<dots> = spec_density ?step ?lam i"
    proof -
      have "(\<Sum>k\<le>i. ?s ! k) = (\<Sum>k\<le>i. ?lam k)"
        using that by (intro sum.cong refl s_nth) simp
      then show ?thesis
        unfolding spec_density_def spec_cumulative_hazard_def
        using s_nth [OF that] by simp
    qed
    finally show ?thesis .
  qed
  have t_nth: "?t ! i = spec_grid_point hmax ?n i * spec_density ?step ?lam i" if "i \<le> ?n" for i
    using that assms(1) dens_nth [OF that]
    by (simp add: length_survival_density length_grid_intensity length_time_grid time_grid_nth)
  have "trapeze ?step ?t = (\<Sum>i<length ?t - 1. ?step * ((?t ! i + ?t ! (i + 1)) / 2))"
    by (rule trapeze_sum)
  also have "\<dots> = (\<Sum>i<?n. ?step * ((?t ! i + ?t ! (i + 1)) / 2))"
    unfolding len_t by simp
  also have "\<dots> = spec_expected_time hmax ?n ?lam"
    unfolding spec_expected_time_def
    by (rule sum.cong) (simp_all add: t_nth)
  finally show ?thesis using dt by simp
qed

text \<open>
  Claim C6. For a positive number of samples (and a network with at least one event type,
  so that the type's argmax does not raise), the grid has \<open>n_samples + 1\<close> points
  \<open>i * (hmax / n_samples)\<close>, from 0 to \<open>hmax\<close>, and \<open>predict_next\<close> returns as predicted
  time the trapezoidal integral over this grid of \<open>t * density t\<close>, where the density is
  the total intensity times the exponential of minus the cumulative hazard and the
  cumulative hazard is the running sum of the total intensities scaled by the step.
\<close>

theorem predict_next_quadrature:
  assumes "0 < n_samples" and "\<forall>h. intensity_layer m h \<noteq> []"
  shows "length (time_grid hmax n_samples) = n_samples + 1 \<and>
         (\<forall>i\<le>n_samples. time_grid hmax n_samples ! i = real i * (hmax / real n_samples)) \<and>
         time_grid hmax n_samples ! 0 = 0 \<and>
         time_grid hmax n_samples ! n_samples = hmax \<and>
         (\<exists>pred_type.
            predict_next m h_t decay hmax n_samples =
              Inr (spec_expected_time hmax n_samples
                     (\<lambda>i. spec_total_intensity m h_t decay (spec_grid_point hmax n_samples i)),
                   pred_type))"
proof -
  from predict_next_returns [OF assms] obtain pred_dt pred_type where
    run: "predict_next m h_t decay hmax n_samples = Inr (pred_dt, pred_type)" by blast
  from predict_next_time [OF assms(1) run] run have
    "\<exists>pred_type.
       predict_next m h_t decay hmax n_samples =
         Inr (spec_expected_time hmax n_samples
                (\<lambda>i. spec_total_intensity m h_t decay (spec_grid_point hmax n_samples i)),
              pred_type)"
    by simp
  moreover have "\<forall>i\<le>n_samples. time_grid hmax n_samples ! i = real i * (hmax / real n_samples)"
    using assms(1) by (simp add: time_grid_nth spec_grid_point_def)
  moreover from this assms(1) have "time_grid hmax n_samples ! 0 = 0"
    "time_grid hmax n_samples ! n_samples = hmax"
    by simp_all
  ultimately show ?thesis by (simp add: length_time_grid)
qed

theorem predict_next_quadrature_witness:
  "length (time_grid 2 2) = 3 \<and> time_grid 2 2 = [0, 1, 2] \<and>
   (\<exists>pred_type. predict_next toy_model [0] [0] 2 2 = Inr (exp (- 2) + exp (- 3), pred_type))"
proof -
  have types: "\<forall>h. intensity_layer toy_model h \<noteq> []"
    by (simp add: toy_model_def)
  have lam: "spec_total_intensity toy_model [0] [0] t = 1" for t
    by (simp add: spec_total_intensity_def toy_model_def)
  have val: "spec_expected_time 2 2 (\<lambda>i. 1) = exp (- 2) + exp (- 3)"
    by (simp add: spec_expected_time_def spec_density_def spec_cumulative_hazard_def
        spec_grid_point_def lessThan_Suc atMost_Suc numeral_2_eq_2 add_divide_distrib)
  have grid: "time_grid 2 2 = [0, 1, 2]"
    by (simp add: time_grid_def linspace_def upt_rec)
  from predict_next_quadrature [of 2 toy_model 2 "[0]" "[0]", OF _ types]
  show ?thesis unfolding lam val using grid by simp
qed

section \<open>The predictor on a state without intensity\<close>

lemma map2_none_left:
  assumes "list_all (\<lambda>v. v = None) r" and "\<And>y. f None y = None"
  shows "list_all (\<lambda>v. v = None) (map2 f r a)"
  using assms by (simp add: list_all_length)

lemma foldl_map2_tadd_none:
  "list_all (\<lambda>v. v = None) r \<Longrightarrow> list_all (\<lambda>v. v = None) (foldl (map2 tadd) r rs)"
proof (induction rs arbitrary: r)
  case Nil
  then show ?case by simp
next
  case (Cons a rs)
  have "list_all (\<lambda>v. v = None) (map2 tadd r a)"
    using Cons.prems by (rule map2_none_left) (simp add: tadd_def)
  then show ?case using Cons.IH by simp
qed

lemma argmax_all_none:
  "xs \<noteq> [] \<Longrightarrow> list_all (\<lambda>v. v = None) xs \<Longrightarrow> argmax xs = Inr 0"
  by (cases xs) (simp_all add: argmax_def)

lemma type_scores_zero_intensity:
  assumes "list_all (\<lambda>r. r \<noteq> []) intensity" "2 \<le> length intensity"
    "length s = length intensity" "length dens = length intensity"
    "list_all (\<lambda>x. x = 0) s"
  shows "list_all (\<lambda>v. v = None) (type_scores ts intensity s dens)"
proof -
  define P where "P = map2 (\<lambda>(row, s) d. map (\<lambda>x. tmul (tdiv x s) (Some d)) row) (zip intensity s) dens"
  have lenP: "length P = length intensity" using assms by (simp add: P_def)
  have P_nth: "list_all (\<lambda>v. v = None) (P ! i)" if "i < length intensity" for i
  proof -
    have "s ! i = 0" using assms(3,5) that by (simp add: list_all_length)
    then show ?thesis
      using that assms(3,4) by (simp add: P_def list_all_iff tdiv_def tmul_def)
  qed
  define Q where "Q = map2 (map2 (\<lambda>a b. tmul (Some (ts * 0.5)) (tadd a b))) (drop 1 P) (butlast P)"
  have lenQ: "length Q = length intensity - 1" using lenP by (simp add: Q_def)
  have Q_nth: "list_all (\<lambda>v. v = None) (Q ! i)" if "i < length Q" for i
  proof -
    from that lenQ have i1: "i + 1 < length intensity" by simp
    have "Q ! i = map2 (\<lambda>a b. tmul (Some (ts * 0.5)) (tadd a b)) (P ! (i + 1)) (P ! i)"
      using i1 lenP by (simp add: Q_def nth_butlast)
    moreover have "list_all (\<lambda>v. v = None) (P ! (i + 1))" using i1 by (rule P_nth)
    ultimately show ?thesis
      by (simp add: map2_none_left tadd_def tmul_def)
  qed
  from assms(2) lenQ obtain q qs where Q: "Q = q # qs" by (cases Q) auto
  have "list_all (\<lambda>v. v = None) q" using Q_nth [of 0] Q by simp
  then have "list_all (\<lambda>v. v = None) (sum_dim0 Q)"
    by (simp add: Q sum_dim0_def foldl_map2_tadd_none)
  then show ?thesis by (simp add: type_scores_def Q_def P_def Let_def)
qed

lemma spec_expected_time_zero:
  assumes "\<forall>i\<le>n. lam i = 0"
  shows "spec_expected_time hmax n lam = 0"
  unfolding spec_expected_time_def
  by (rule sum.neutral) (use assms in \<open>simp add: spec_density_def\<close>)

text \<open>
  Claim C5, as the code has it. When the total intensity is 0 at every grid point (for a
  positive number of samples and a network with at least one event type), the call returns
  without an error; the density is 0 at every grid point, so the predicted inter-arrival
  time is exactly 0, not \<open>hmax\<close>; every type's score is the quotient of an intensity by
  the zero total times the zero density, which is not a number, and \<open>argmax\<close> over such
  scores is the index of the first of them: the predicted type is the type 0.
\<close>

theorem predict_next_zero_intensity:
  assumes "0 < n_samples" and "\<forall>h. intensity_layer m h \<noteq> []"
    and "\<forall>i\<le>n_samples.
           spec_total_intensity m h_t decay (spec_grid_point hmax n_samples i) = 0"
  shows "predict_next m h_t decay hmax n_samples = Inr (0, 0)"
proof -
  let ?step = "hmax / real n_samples"
  let ?grid = "time_grid hmax n_samples"
  let ?int = "grid_intensity m h_t decay ?grid"
  let ?s = "map sum_list ?int"
  let ?dens = "survival_density ?step ?s"
  have zero: "list_all (\<lambda>x. x = 0) ?s"
    unfolding list_all_length
  proof (intro allI impI)
    fix i assume "i < length ?s"
    then have i: "i \<le> n_samples"
      by (simp add: length_grid_intensity length_time_grid)
    then show "?s ! i = 0"
      using assms(1,3)
      by (simp add: length_grid_intensity length_time_grid grid_intensity_nth time_grid_nth)
  qed
  have ne: "type_scores ?step ?int ?s ?dens \<noteq> []"
    using assms(1,2)
    by (intro type_scores_nonempty grid_intensity_nonempty)
       (simp_all add: length_grid_intensity length_time_grid length_survival_density)
  have "list_all (\<lambda>v. v = None) (type_scores ?step ?int ?s ?dens)"
    using assms(1,2) zero
    by (intro type_scores_zero_intensity grid_intensity_nonempty)
       (simp_all add: length_grid_intensity length_time_grid length_survival_density)
  with ne have am: "argmax (type_scores ?step ?int ?s ?dens) = Inr 0"
    by (rule argmax_all_none)
  then obtain pred_dt where
    run: "predict_next m h_t decay hmax n_samples = Inr (pred_dt, 0)"
    using assms(1) by (simp add: predict_next_def Let_def)
  from predict_next_time [OF assms(1) run] assms(3) have "pred_dt = 0"
    by (simp add: spec_expected_time_zero)
  with run show ?thesis by simp
qed

theorem predict_next_zero_intensity_witness:
  "predict_next silent_model [1] [1] 40 1000 = Inr (0, 0)"
proof -
  have types: "\<forall>h. intensity_layer silent_model h \<noteq> []"
    by (simp add: silent_model_def)
  have zero: "\<forall>i\<le>1000. spec_total_intensity silent_model [1] [1] (spec_grid_point 40 1000 i) = 0"
    by (simp add: spec_total_intensity_def silent_model_def)
  from predict_next_zero_intensity [of 1000 silent_model "[1]" "[1]" 40, OF _ types zero]
  show ?thesis by simp
qed

text \<open>
  The claim as stated fails on two samples over the horizon 40: the predicted time is 0,
  not 40 (the predicted type is the type 0).
\<close>

theorem predict_next_zero_intensity_counterexample:
  "predict_next silent_model [1] [1] 40 2 = Inr (0, 0)"
  by (simp add: predict_next_def silent_model_def toy_model_def time_grid_def linspace_def
      grid_intensity_def survival_density_def cumsum_def trapeze_def type_scores_def
      sum_dim0_def argmax_def tdiv_def tmul_def tadd_def upt_rec Let_def)

section \<open>The samplers\<close>

lemma advance_advance: "advance a (advance b g) = advance (b + a) g"
  by (simp add: advance_def add.assoc)

lemma advance_half_gen: "advance n half_gen = half_gen"
  by (simp add: advance_def half_gen_def)

lemma advance_zero_np_gen: "advance n zero_np_gen = zero_np_gen"
  by (simp add: advance_def zero_np_gen_def)

lemma unit_draws_half_gen: "unit_draws half_gen"
  by (simp add: unit_draws_def half_gen_def)

lemma np_shuffle_loop_length: "length (fst (np_shuffle_loop i x h)) = length x"
  by (induction i x h rule: np_shuffle_loop.induct)
     (simp_all add: random_interval_def Let_def)

lemma np_shuffle_step_set:
  assumes "Suc i < length x" "j \<le> Suc i"
  shows "set ((x[Suc i := x ! j])[j := (x[Suc i := x ! j]) ! Suc i]) \<subseteq> set x"
proof -
  let ?x' = "x[Suc i := x ! j]"
  from assms have j: "j < length x" by simp
  have "set ?x' \<subseteq> insert (x ! j) (set x)"
    by (rule set_update_subset_insert)
  with j have sx': "set ?x' \<subseteq> set x" by auto
  have "?x' ! Suc i \<in> set ?x'" using assms(1) by (intro nth_mem) simp
  moreover have "set (?x'[j := ?x' ! Suc i]) \<subseteq> insert (?x' ! Suc i) (set ?x')"
    by (rule set_update_subset_insert)
  ultimately show ?thesis using sx' by blast
qed

lemma np_shuffle_loop_set:
  "i < length x \<Longrightarrow> set (fst (np_shuffle_loop i x h)) \<subseteq> set x"
proof (induction i arbitrary: x h)
  case 0
  show ?case by simp
next
  case (Suc i)
  define j where "j = h 0 mod (Suc i + 1)"
  define y where "y = (x[Suc i := x ! j])[j := (x[Suc i := x ! j]) ! Suc i]"
  have jle: "j \<le> Suc i" unfolding j_def by (simp add: less_Suc_eq_le [symmetric])
  have sy: "set y \<subseteq> set x"
    unfolding y_def using Suc.prems jle by (rule np_shuffle_step_set)
  have len: "i < length y" using Suc.prems by (simp add: y_def)
  have step: "np_shuffle_loop (Suc i) x h = np_shuffle_loop i y (advance 1 h)"
    by (simp add: random_interval_def Let_def j_def y_def)
  from Suc.IH [OF len] sy show ?case unfolding step by blast
qed

lemma np_shuffle_length: "length (fst (np_shuffle x h)) = length x"
  by (simp add: np_shuffle_def np_shuffle_loop_length)

lemma np_shuffle_set: "set (fst (np_shuffle x h)) \<subseteq> set x"
proof (cases x)
  case Nil
  then show ?thesis by (simp add: np_shuffle_def)
next
  case (Cons a xs)
  then show ?thesis unfolding np_shuffle_def by (intro np_shuffle_loop_set) simp
qed

lemma length_inter_arrival: "length s = n \<Longrightarrow> length (inter_arrival n s) = n"
  by (cases n) (simp_all add: inter_arrival_def)

lemma inter_arrival_first: "0 < n \<Longrightarrow> inter_arrival n s ! 0 = 0"
  by (cases n) (simp_all add: inter_arrival_def)

lemma inter_arrival_nth:
  assumes "length s = n" "1 \<le> i" "i < n"
  shows "inter_arrival n s ! i = s ! i - s ! (i - 1)"
proof -
  obtain k where n: "n = Suc k" using assms by (cases n) auto
  obtain j where i: "i = Suc j" using assms by (cases i) auto
  have "inter_arrival n s ! i = map2 (\<lambda>a b. a - b) (drop 1 s) (butlast s) ! j"
    by (simp add: inter_arrival_def n i)
  also have "\<dots> = s ! i - s ! (i - 1)"
    using assms by (simp add: i nth_butlast)
  finally show ?thesis .
qed

lemma inter_arrival_nonneg:
  assumes "length s = n" "sorted s"
  shows "list_all (\<lambda>x. 0 \<le> x) (inter_arrival n s)"
  unfolding list_all_length
proof (intro allI impI)
  fix i assume "i < length (inter_arrival n s)"
  then have i: "i < n" using assms(1) by (simp add: length_inter_arrival)
  show "0 \<le> inter_arrival n s ! i"
  proof (cases i)
    case 0
    then show ?thesis using i by (simp add: inter_arrival_first)
  next
    case (Suc j)
    then have "inter_arrival n s ! i = s ! i - s ! (i - 1)"
      using assms(1) i by (intro inter_arrival_nth) simp_all
    moreover have "s ! (i - 1) \<le> s ! i"
      using assms i by (intro sorted_nth_mono) simp_all
    ultimately show ?thesis by simp
  qed
qed

lemma uniform_fill_samples:
  "0 \<le> T \<Longrightarrow> uniform_fill 0 T x g = Inr (map (\<lambda>k. T * g k) [0..<length x], advance (length x) g)"
  by (simp add: uniform_fill_def)


text \<open>The row that the loop body of \<open>create_unifrom_d\<close> builds before the shuffle.\<close>

lemma unifrom_rows_result:
  assumes "list_all (\<lambda>T. 0 \<le> T) Ts"
  shows "\<exists>rows h'. unifrom_rows n Ts g h = Inr (rows, advance (length Ts * n) g, h') \<and>
           length rows = length Ts \<and>
           (\<forall>b<length Ts. \<exists>hb. rows ! b =
              fst (np_shuffle (inter_arrival n (sort (map (\<lambda>k. Ts ! b * g (b * n + k)) [0..<n]))) hb))"
  using assms
proof (induction Ts arbitrary: g h)
  case Nil
  show ?case by (simp add: advance_def)
next
  case (Cons T Ts)
  let ?gaps = "inter_arrival n (sort (map (\<lambda>k. T * g k) [0..<n]))"
  obtain sh h1 where sh: "np_shuffle ?gaps h = (sh, h1)" by (cases "np_shuffle ?gaps h") auto
  from Cons.prems have T: "0 \<le> T" and rest: "list_all (\<lambda>T. 0 \<le> T) Ts" by simp_all
  from Cons.IH [OF rest, of "advance n g" h1] obtain rows h' where
    run: "unifrom_rows n Ts (advance n g) h1 = Inr (rows, advance (length Ts * n) (advance n g), h')"
    and len: "length rows = length Ts"
    and each: "\<forall>b<length Ts. \<exists>hb. rows ! b =
        fst (np_shuffle (inter_arrival n (sort (map (\<lambda>k. Ts ! b * advance n g (b * n + k)) [0..<n]))) hb)"
    by blast
  have adv: "advance (length Ts * n) (advance n g) = advance (length (T # Ts) * n) g"
    by (simp add: advance_advance add.commute)
  have step: "unifrom_rows n (T # Ts) g h = Inr (sh # rows, advance (length (T # Ts) * n) g, h')"
    using T by (simp add: uniform_fill_samples sh run adv Let_def)
  have "\<exists>hb. (sh # rows) ! b =
      fst (np_shuffle (inter_arrival n (sort (map (\<lambda>k. (T # Ts) ! b * g (b * n + k)) [0..<n]))) hb)"
    if "b < length (T # Ts)" for b
  proof (cases b)
    case 0
    have "sh = fst (np_shuffle ?gaps h)" by (simp add: sh)
    then show ?thesis using 0 by auto
  next
    case (Suc c)
    with that have c: "c < length Ts" by simp
    from each c obtain hb where
      "rows ! c = fst (np_shuffle (inter_arrival n (sort (map (\<lambda>k. Ts ! c * advance n g (c * n + k)) [0..<n]))) hb)"
      by blast
    moreover have "advance n g (c * n + k) = g (Suc c * n + k)" for k
      by (simp add: advance_def add.assoc)
    ultimately show ?thesis using Suc by auto
  qed
  with step len show ?case by auto
qed

lemma ncols_rect: "rows \<noteq> [] \<Longrightarrow> list_all (\<lambda>r. length r = n) rows \<Longrightarrow> ncols rows = n"
  by (cases rows) (simp_all add: ncols_def)

lemma torch_stack_rect:
  "rows \<noteq> [] \<Longrightarrow> list_all (\<lambda>r. length r = n) rows \<Longrightarrow> torch_stack rows = Inr rows"
  by (cases rows) (auto simp: torch_stack_def list_all_iff)

lemma create_unifrom_d_result:
  assumes "event_times \<noteq> []" and "list_all (\<lambda>r. length r = n) event_times"
    and "list_all (\<lambda>r. 0 \<le> sum_list r) event_times"
  shows "\<exists>rows h'. create_unifrom_d event_times g h =
             Inr (rows, advance (length event_times * n) g, h') \<and>
           length rows = length event_times \<and>
           (\<forall>b<length event_times. \<exists>hb. rows ! b =
              fst (np_shuffle (inter_arrival n
                (sort (map (\<lambda>k. sum_list (event_times ! b) * g (b * n + k)) [0..<n]))) hb))"
proof -
  let ?Ts = "map sum_list event_times"
  have pos: "list_all (\<lambda>T. 0 \<le> T) ?Ts" using assms(3) by (simp add: list_all_iff)
  from unifrom_rows_result [OF pos, of n g h] obtain rows h' where
    run: "unifrom_rows n ?Ts g h = Inr (rows, advance (length ?Ts * n) g, h')"
    and len: "length rows = length ?Ts"
    and each: "\<forall>b<length ?Ts. \<exists>hb. rows ! b =
        fst (np_shuffle (inter_arrival n (sort (map (\<lambda>k. ?Ts ! b * g (b * n + k)) [0..<n]))) hb)"
    by blast
  have rect: "list_all (\<lambda>r. length r = n) rows"
    unfolding list_all_length
  proof (intro allI impI)
    fix b assume "b < length rows"
    with len each obtain hb where "rows ! b =
        fst (np_shuffle (inter_arrival n (sort (map (\<lambda>k. ?Ts ! b * g (b * n + k)) [0..<n]))) hb)"
      by auto
    then show "length (rows ! b) = n"
      by (simp add: np_shuffle_length length_inter_arrival)
  qed
  from assms(1) len have "rows \<noteq> []" by auto
  then have st: "torch_stack rows = Inr rows" using rect by (rule torch_stack_rect)
  have "create_unifrom_d event_times g h = Inr (rows, advance (length ?Ts * n) g, h')"
    using run st by (simp add: create_unifrom_d_def ncols_rect [OF assms(1,2)])
  with len each show ?thesis by auto
qed





section \<open>The sampler of the loss\<close>

lemma unif_d_rows_result:
  assumes "0 \<le> T0"
  shows "\<exists>rows. unif_d_rows n (T0 # Tr) Ts g = Inr (rows, advance (length Ts * (2 * n)) g) \<and>
           length rows = length Ts \<and>
           (\<forall>b<length Ts. rows ! b = map (\<lambda>k. T0 * g (b * (2 * n) + n + k)) [0..<n])"
proof (induction Ts arbitrary: g)
  case Nil
  show ?case by (simp add: advance_def)
next
  case (Cons T Ts)
  from Cons.IH [of "advance n (advance n g)"] obtain rows where
    run: "unif_d_rows n (T0 # Tr) Ts (advance n (advance n g)) =
            Inr (rows, advance (length Ts * (2 * n)) (advance n (advance n g)))"
    and len: "length rows = length Ts"
    and each: "\<forall>b<length Ts. rows ! b =
            map (\<lambda>k. T0 * advance n (advance n g) (b * (2 * n) + n + k)) [0..<n]"
    by blast
  let ?row = "map (\<lambda>k. T0 * advance n g k) [0..<n]"
  have adv: "advance (length Ts * (2 * n)) (advance n (advance n g)) =
      advance (length (T # Ts) * (2 * n)) g"
    by (simp add: advance_advance add.commute mult_2)
  have step: "unif_d_rows n (T0 # Tr) (T # Ts) g =
      Inr (?row # rows, advance (length (T # Ts) * (2 * n)) g)"
    using assms by (simp add: torch_rand_def nth_err_def uniform_fill_samples run adv)
  have "(?row # rows) ! b = map (\<lambda>k. T0 * g (b * (2 * n) + n + k)) [0..<n]"
    if "b < length (T # Ts)" for b
  proof (cases b)
    case 0
    then show ?thesis by (simp add: advance_def)
  next
    case (Suc c)
    with that have c: "c < length Ts" by simp
    have "advance n (advance n g) (c * (2 * n) + n + k) = g (Suc c * (2 * n) + n + k)" for k
      by (simp add: advance_def add.assoc add.left_commute)
    with each c show ?thesis using Suc by simp
  qed
  with step len show ?case by auto
qed

lemma create_unif_d_result:
  assumes "0 \<le> T0"
  shows "create_unif_d n (T0 # Tr) g =
           Inr (map (\<lambda>i. map (\<lambda>b. T0 * g (b * (2 * n) + n + i)) [0..<Suc (length Tr)]) [0..<n],
                advance (Suc (length Tr) * (2 * n)) g)"
proof -
  from unif_d_rows_result [OF assms, of n Tr "T0 # Tr" g] obtain rows where
    run: "unif_d_rows n (T0 # Tr) (T0 # Tr) g =
            Inr (rows, advance (length (T0 # Tr) * (2 * n)) g)"
    and len: "length rows = length (T0 # Tr)"
    and each: "\<forall>b<length (T0 # Tr). rows ! b =
            map (\<lambda>k. T0 * g (b * (2 * n) + n + k)) [0..<n]"
    by blast
  have rect: "list_all (\<lambda>r. length r = n) rows"
    using each len by (simp add: list_all_length)
  from len have "rows \<noteq> []" by auto
  then have st: "torch_stack rows = Inr rows" using rect by (rule torch_stack_rect)
  have tr: "transpose10 n rows =
      map (\<lambda>i. map (\<lambda>b. T0 * g (b * (2 * n) + n + i)) [0..<Suc (length Tr)]) [0..<n]"
    unfolding transpose10_def
  proof (rule map_cong [OF refl])
    fix i assume "i \<in> set [0..<n]"
    then have i: "i < n" by simp
    show "map (\<lambda>r. r ! i) rows = map (\<lambda>b. T0 * g (b * (2 * n) + n + i)) [0..<Suc (length Tr)]"
    proof (rule nth_equalityI)
      show "length (map (\<lambda>r. r ! i) rows) =
          length (map (\<lambda>b. T0 * g (b * (2 * n) + n + i)) [0..<Suc (length Tr)])"
        using len by simp
    next
      fix b assume "b < length (map (\<lambda>r. r ! i) rows)"
      then have b: "b < Suc (length Tr)" using len by simp
      then have "rows ! b = map (\<lambda>k. T0 * g (b * (2 * n) + n + k)) [0..<n]"
        using each by simp
      then have "rows ! b ! i = T0 * g (b * (2 * n) + n + i)" using i by simp
      moreover have "map (\<lambda>b. T0 * g (b * (2 * n) + n + i)) [0..<Suc (length Tr)] ! b =
          T0 * g (0 + b * (2 * n) + n + i)"
        using b nth_map_upt [of b "Suc (length Tr)" 0 "\<lambda>b. T0 * g (b * (2 * n) + n + i)"]
        by (simp add: add.commute)
      ultimately show "map (\<lambda>r. r ! i) rows ! b =
          map (\<lambda>b. T0 * g (b * (2 * n) + n + i)) [0..<Suc (length Tr)] ! b"
        using b len by simp
    qed
  qed
  show ?thesis using run st tr by (simp add: create_unif_d_def)
qed

text \<open>
  Claim C1 fails on the code. Two sequences with total durations 1 and 10, one simulated
  time each, every draw 1/2: the simulated time of the second sequence is \<open>1 * 1/2\<close>, drawn
  over the first sequence's horizon, where its own horizon would give \<open>10 * 1/2 = 5\<close>.
\<close>

theorem create_unif_d_first_horizon:
  "create_unif_d 1 [1, 10] half_gen = Inr ([[1 / 2, 1 / 2]], half_gen)"
  using create_unif_d_result [of 1 1 "[10]" half_gen]
  by (simp add: advance_half_gen) (simp add: half_gen_def)

section \<open>The shapes of the samplers' results\<close>

text \<open>
  Claim C8, as the code has it. For a batch of inter-arrival times with at least one
  sequence, rows of \<open>n\<close> entries and non-negative durations, \<open>create_unifrom_d\<close> returns
  as many rows as the batch has, each of \<open>n\<close> entries, and every entry is \<open>\<ge> 0\<close>. The
  sampler of the loss, \<open>create_unif_d\<close>, called with the batch length \<open>l\<close> and the total
  durations of the sequences (the first one non-negative), returns the transposed layout:
  \<open>l\<close> rows, one for every position, each with one entry for every sequence, and every
  entry is \<open>\<ge> 0\<close>.
\<close>

theorem sampler_shapes:
  assumes "event_times \<noteq> []" and "list_all (\<lambda>r. length r = n) event_times"
    and "list_all (\<lambda>r. 0 \<le> sum_list r) event_times" and "unit_draws g"
    and "total_time_seqs \<noteq> []" and "0 \<le> hd total_time_seqs"
  shows "(\<exists>rows g' h'. create_unifrom_d event_times g h = Inr (rows, g', h') \<and>
            length rows = length event_times \<and>
            list_all (\<lambda>r. length r = n \<and> list_all (\<lambda>x. 0 \<le> x) r) rows) \<and>
         (\<exists>sim g'. create_unif_d l total_time_seqs g = Inr (sim, g') \<and>
            length sim = l \<and>
            list_all (\<lambda>r. length r = length total_time_seqs \<and> list_all (\<lambda>x. 0 \<le> x) r) sim)"
proof
  from create_unifrom_d_result [OF assms(1-3), of g h] obtain rows h' where
    run: "create_unifrom_d event_times g h = Inr (rows, advance (length event_times * n) g, h')"
    and len: "length rows = length event_times"
    and each: "\<forall>b<length event_times. \<exists>hb. rows ! b =
        fst (np_shuffle (inter_arrival n
          (sort (map (\<lambda>k. sum_list (event_times ! b) * g (b * n + k)) [0..<n]))) hb)"
    by blast
  have "list_all (\<lambda>r. length r = n \<and> list_all (\<lambda>x. 0 \<le> x) r) rows"
    unfolding list_all_iff
  proof (intro ballI)
    fix r assume "r \<in> set rows"
    then obtain b where b: "b < length rows" and r: "r = rows ! b"
      by (auto simp: in_set_conv_nth)
    with len each obtain hb u where
      u: "u = map (\<lambda>k. sum_list (event_times ! b) * g (b * n + k)) [0..<n]"
      and row: "r = fst (np_shuffle (inter_arrival n (sort u)) hb)"
      by auto
    have ls: "length (sort u) = n" by (simp add: u)
    have nn: "list_all (\<lambda>x. 0 \<le> x) (inter_arrival n (sort u))"
      using ls by (rule inter_arrival_nonneg) simp
    have "set r \<subseteq> set (inter_arrival n (sort u))"
      unfolding row by (rule np_shuffle_set)
    with nn have "\<forall>x\<in>set r. 0 \<le> x"
      by (auto simp: list_all_iff)
    moreover have "length r = n"
      using length_inter_arrival [OF ls] by (simp add: row np_shuffle_length)
    ultimately show "length r = n \<and> (\<forall>x\<in>set r. 0 \<le> x)"
      by simp
  qed
  with run len show "\<exists>rows g' h'. create_unifrom_d event_times g h = Inr (rows, g', h') \<and>
            length rows = length event_times \<and>
            list_all (\<lambda>r. length r = n \<and> list_all (\<lambda>x. 0 \<le> x) r) rows"
    by blast
next
  from assms(5) obtain T0 Tr where Ts: "total_time_seqs = T0 # Tr"
    by (cases total_time_seqs) auto
  with assms(6) have T0: "0 \<le> T0" by simp
  let ?sim = "map (\<lambda>i. map (\<lambda>b. T0 * g (b * (2 * l) + l + i)) [0..<Suc (length Tr)]) [0..<l]"
  have run: "create_unif_d l total_time_seqs g = Inr (?sim, advance (Suc (length Tr) * (2 * l)) g)"
    unfolding Ts using T0 by (rule create_unif_d_result)
  have nonneg: "0 \<le> T0 * g k" for k
    using T0 assms(4) by (simp add: unit_draws_def)
  have "list_all (\<lambda>r. length r = length total_time_seqs \<and> list_all (\<lambda>x. 0 \<le> x) r) ?sim"
    using nonneg by (simp add: list_all_iff Ts)
  moreover have "length ?sim = l" by simp
  ultimately show "\<exists>sim g'. create_unif_d l total_time_seqs g = Inr (sim, g') \<and>
            length sim = l \<and>
            list_all (\<lambda>r. length r = length total_time_seqs \<and> list_all (\<lambda>x. 0 \<le> x) r) sim"
    using run by blast
qed

theorem sampler_shapes_witness:
  "(\<exists>rows g' h'. create_unifrom_d [[1, 1, 0], [2, 4, 1]] half_gen zero_np_gen = Inr (rows, g', h') \<and>
      length rows = 2 \<and> list_all (\<lambda>r. length r = 3 \<and> list_all (\<lambda>x. 0 \<le> x) r) rows) \<and>
   (\<exists>sim g'. create_unif_d 4 [2, 7] half_gen = Inr (sim, g') \<and>
      length sim = 4 \<and> list_all (\<lambda>r. length r = 2 \<and> list_all (\<lambda>x. 0 \<le> x) r) sim)"
  using sampler_shapes [of "[[1, 1, 0], [2, 4, 1]]" 3 half_gen "[2, 7]" zero_np_gen 4,
      OF _ _ _ unit_draws_half_gen]
  by (simp add: numeral_2_eq_2)

text \<open>
  The claim as stated fails on the sampler of the loss: for one sequence of three
  positions the result has three rows of one entry, not one row of three.
\<close>

theorem sampler_shapes_counterexample:
  "create_unif_d 3 [2] half_gen = Inr ([[1], [1], [1]], half_gen)"
  using create_unif_d_result [of 2 3 "[]" half_gen]
  by (simp add: advance_half_gen upt_rec) (simp add: half_gen_def)

section \<open>The loss on an empty sequence\<close>

lemma half_gen_apply: "half_gen k = 1 / 2"
  by (simp add: half_gen_def)

lemma accumulate_from_none:
  "accumulate f idx xs None = Inr v \<Longrightarrow> v = None"
proof (induction xs arbitrary: idx)
  case Nil
  then show ?case by simp
next
  case (Cons x xs)
  then show ?case
    by (cases "f idx x") (simp_all add: tadd_def)
qed

lemma accumulate_meets_none:
  assumes "b < length xs" and "f (idx + b) (xs ! b) = Inr None"
    and "accumulate f idx xs acc = Inr v"
  shows "v = None"
  using assms
proof (induction xs arbitrary: idx acc b)
  case Nil
  then show ?case by simp
next
  case (Cons x xs)
  show ?case
  proof (cases b)
    case 0
    with Cons.prems have "accumulate f (Suc idx) xs (tadd acc None) = Inr v"
      by simp
    moreover have "tadd acc None = None" by (simp add: tadd_def split: option.splits)
    ultimately show ?thesis by (simp add: accumulate_from_none)
  next
    case (Suc c)
    from Cons.prems(3) obtain w where w: "f idx x = Inr w"
      and run: "accumulate f (Suc idx) xs (tadd acc w) = Inr v"
      by (cases "f idx x") simp_all
    from Cons.prems(1,2) Suc have "c < length xs" "f (Suc idx + c) (xs ! c) = Inr None"
      by simp_all
    from Cons.IH [OF this run] show ?thesis .
  qed
qed

lemma forward_empty_sequence:
  assumes "b < length total_time_seqs" and "b < length seqs_length" and "seqs_length ! b = 0"
    and "forward m event_seqs time_seqs seqs_length total_time_seqs st g = Inr (v, g')"
  shows "v = None"
proof -
  let ?xs = "zip total_time_seqs seqs_length"
  from assms(4) obtain orig sim_intensity simulated where
    acc: "accumulate (\<lambda>idx (total_time, seq_len).
            integral_term sim_intensity idx total_time seq_len) 0 ?xs (Some 0) = Inr simulated"
    and v: "v = tneg (tsub orig simulated)"
    by (auto simp: forward_def Let_def split: sum.splits prod.splits)
  have b: "b < length ?xs" using assms(1,2) by simp
  have "(\<lambda>idx (total_time, seq_len). integral_term sim_intensity idx total_time seq_len)
          (0 + b) (?xs ! b) = Inr None"
    using assms(1-3)
    by (simp add: integral_term_def index_rows_def tdiv_def tmul_def)
  from accumulate_meets_none [OF b this acc] have "simulated = None" .
  then show ?thesis by (simp add: v tsub_def tneg_def split: option.splits)
qed

text \<open>
  Claim C2, as the code has it. For a sequence of length 0, whatever the tensors and the
  total time are: the event term is the empty sum, exactly 0, and nothing raises; the
  Monte-Carlo coefficient \<open>total_time / seq_len\<close> is computed with no guard against the
  zero length, so it is not a finite number (\<^verbatim>\<open>nan\<close> for the total time 0), and neither
  is the integral term of the sequence, which is the coefficient times the empty sum. So
  whenever the loss of a batch with such a sequence returns, it is not a finite number.
\<close>

theorem empty_sequence_terms:
  "event_term log_intensity idx event_seq 0 = Inr (Some 0) \<and>
   integral_term sim_intensity idx total_time 0 = Inr None \<and>
   (\<forall>b v g'. b < length total_time_seqs \<and> b < length seqs_length \<and> seqs_length ! b = 0 \<and>
       forward m event_seqs time_seqs seqs_length total_time_seqs st g = Inr (v, g') \<longrightarrow>
       v = None)"
proof -
  have "event_term log_intensity idx event_seq 0 = Inr (Some 0)"
    by (simp add: event_term_def index3_def broadcast2_def slice_def tsum_def)
  moreover have "integral_term sim_intensity idx total_time 0 = Inr None"
    by (simp add: integral_term_def index_rows_def tdiv_def tmul_def)
  moreover have "\<forall>b v g'. b < length total_time_seqs \<and> b < length seqs_length \<and>
       seqs_length ! b = 0 \<and>
       forward m event_seqs time_seqs seqs_length total_time_seqs st g = Inr (v, g') \<longrightarrow>
       v = None"
    using forward_empty_sequence by blast
  ultimately show ?thesis by blast
qed

theorem empty_sequence_terms_witness:
  "forward toy_model [[1, 0], [1, 0]] [[0, 3], [0, 0]] [1, 0] [3, 0] toy_states half_gen =
     Inr (None, half_gen)"
proof -
  have "\<exists>v. forward toy_model [[1, 0], [1, 0]] [[0, 3], [0, 0]] [1, 0] [3, 0] toy_states half_gen =
      Inr (v, half_gen)"
    by (simp add: forward_def ncols_def toy_model_def toy_states_def event_term_def
      integral_term_def index3_def index_rows_def broadcast2_def slice_def tsum_def tdiv_def
      tmul_def tadd_def tsub_def tneg_def tlog_def nth_err_def py_nth_def create_unif_d_def
      torch_rand_def uniform_fill_def torch_stack_def transpose10_def decay_batch_def
      advance_half_gen half_gen_apply upt_rec Let_def)
  then obtain v where
    run: "forward toy_model [[1, 0], [1, 0]] [[0, 3], [0, 0]] [1, 0] [3, 0] toy_states half_gen =
      Inr (v, half_gen)" ..
  from empty_sequence_terms [of "[]" 0 "[]" "[]" 0 "[3, 0]" "[1, 0]" toy_model
      "[[1, 0], [1, 0]]" "[[0, 3], [0, 0]]" toy_states half_gen]
  have "\<forall>b v g'. b < length [3 :: real, 0] \<and> b < length [1 :: nat, 0] \<and> [1 :: nat, 0] ! b = 0 \<and>
       forward toy_model [[1, 0], [1, 0]] [[0, 3], [0, 0]] [1, 0] [3, 0] toy_states half_gen = Inr (v, g') \<longrightarrow>
       v = None"
    by blast
  then have "v = None" using run by (auto intro: exI [of _ 1])
  with run show ?thesis by simp
qed

text \<open>
  The claim as stated fails on a batch of two sequences whose first one is empty, with the
  total time 0: the loss returned is not a number, where a contribution of 0 would leave
  the loss of the second sequence.
\<close>

theorem empty_sequence_terms_counterexample:
  "forward toy_model [[1, 0], [1, 0]] [[0, 0], [0, 1]] [0, 1] [0, 1] toy_states half_gen =
     Inr (None, half_gen)"
  by (simp add: forward_def ncols_def toy_model_def toy_states_def event_term_def
      integral_term_def index3_def index_rows_def broadcast2_def slice_def tsum_def tdiv_def
      tmul_def tadd_def tsub_def tneg_def tlog_def nth_err_def py_nth_def create_unif_d_def
      torch_rand_def uniform_fill_def torch_stack_def transpose10_def decay_batch_def
      advance_half_gen half_gen_apply upt_rec Let_def)

section \<open>The loss and the order of the batch\<close>

text \<open>
  Claim C7 fails on the code. Two sequences with one event each, the same states and the
  total times 1 and 2, every draw 1/2. In the order (1, 2) all simulated times are drawn
  over the horizon 1, in the order (2, 1) over the horizon 2, so each sequence's integral
  term changes with the other sequence's position and the two losses differ.
\<close>

theorem forward_depends_on_batch_order:
  "forward toy_model [[1, 0], [1, 0]] [[0, 1], [0, 2]] [1, 1] [1, 2] toy_states half_gen =
     Inr (Some (3 * exp (tanh (exp (- (1 / 2))))), half_gen) \<and>
   forward toy_model [[1, 0], [1, 0]] [[0, 2], [0, 1]] [1, 1] [2, 1] toy_states half_gen =
     Inr (Some (3 * exp (tanh (exp (- 1)))), half_gen) \<and>
   3 * exp (tanh (exp (- (1 / 2)))) \<noteq> (3 * exp (tanh (exp (- 1))) :: real)"
  by (simp add: forward_def ncols_def toy_model_def toy_states_def event_term_def
      integral_term_def index3_def index_rows_def broadcast2_def slice_def tsum_def tdiv_def
      tmul_def tadd_def tsub_def tneg_def tlog_def nth_err_def py_nth_def create_unif_d_def
      torch_rand_def uniform_fill_def torch_stack_def transpose10_def decay_batch_def
      advance_half_gen half_gen_apply upt_rec Let_def)

section \<open>The logarithm of the intensities\<close>

lemma tadd_simps:
  "tadd None b = None" "tadd a None = None" "tadd (Some x) (Some y) = Some (x + y)"
  by (simp_all add: tadd_def split: option.splits)

lemma foldl_tadd:
  "foldl tadd a xs =
     (if a = None \<or> None \<in> set xs then None else Some (the a + sum_list (map the xs)))"
proof (induction xs arbitrary: a)
  case Nil
  show ?case by (cases a) simp_all
next
  case (Cons x xs)
  show ?case
    by (cases a; cases x) (auto simp: Cons.IH tadd_simps)
qed

lemma sequence_err_map_Inr: "sequence_err (map (\<lambda>x. Inr (f x)) xs) = Inr (map f xs)"
  by (induction xs) simp_all

lemma zip_upt_nth: "length ys = n \<Longrightarrow> zip [0..<n] ys = map (\<lambda>p. (p, ys ! p)) [0..<n]"
  by (rule nth_equalityI) simp_all

lemma tsum_tlog:
  "tsum (map (\<lambda>p. tlog (f p)) [0..<n]) =
     (if \<forall>p<n. 0 < f p then Some (\<Sum>p<n. ln (f p)) else None)"
proof -
  have none: "None \<in> set (map (\<lambda>p. tlog (f p)) [0..<n]) \<longleftrightarrow> \<not> (\<forall>p<n. 0 < f p)"
    by (auto simp: tlog_def image_iff split: if_splits)
  have "sum_list (map the (map (\<lambda>p. tlog (f p)) [0..<n])) = (\<Sum>p<n. ln (f p))"
    if "\<forall>p<n. 0 < f p"
  proof -
    have "map the (map (\<lambda>p. tlog (f p)) [0..<n]) = map (\<lambda>p. ln (f p)) [0..<n]"
      using that by (simp add: tlog_def)
    then show ?thesis
      by (simp add: interv_sum_list_conv_sum_set_nat atLeast0LessThan)
  qed
  then show ?thesis
    unfolding tsum_def foldl_tadd none by simp
qed

text \<open>
  The event term of one sequence whose indices are in range: the sum of the logarithms of
  the intensities of the observed types when all of these are positive, and not a finite
  number otherwise.
\<close>

lemma event_term_sum_of_logs:
  assumes "seq_len < length event_seq" and "seq_len \<le> length intensity"
    and "\<forall>p<seq_len. idx < length (intensity ! p) \<and> 0 \<le> event_seq ! (p + 1) \<and>
           nat (event_seq ! (p + 1)) < length (intensity ! p ! idx)"
  shows "event_term (map (map (map tlog)) intensity) idx event_seq seq_len =
           Inr (if \<forall>p<seq_len. 0 < intensity ! p ! idx ! nat (event_seq ! (p + 1))
                then Some (\<Sum>p<seq_len. ln (intensity ! p ! idx ! nat (event_seq ! (p + 1))))
                else None)"
proof -
  let ?t = "map (map (map tlog)) intensity"
  let ?pos = "slice event_seq 1 (seq_len + 1)"
  let ?sel = "\<lambda>p. intensity ! p ! idx ! nat (event_seq ! (p + 1))"
  let ?pick = "\<lambda>(p, k). case nth_err ?t p of
                   Inl e \<Rightarrow> Inl e
                 | Inr batch \<Rightarrow> (case nth_err batch idx of Inl e \<Rightarrow> Inl e | Inr v \<Rightarrow> py_nth v k)"
  have len: "length ?pos = seq_len" using assms(1) by (simp add: slice_def)
  have pos: "?pos ! p = event_seq ! (p + 1)" if "p < seq_len" for p
    using that assms(1) by (simp add: slice_def)
  have bc: "broadcast2 [0..<seq_len] ?pos = Inr (map (\<lambda>p. (p, ?pos ! p)) [0..<seq_len])"
    using len by (simp add: broadcast2_def zip_upt_nth)
  have pick: "?pick (p, ?pos ! p) = Inr (tlog (?sel p))" if "p < seq_len" for p
    using that assms(2,3) pos [OF that] by (simp add: nth_err_def py_nth_def)
  have mapeq: "map ?pick (map (\<lambda>p. (p, ?pos ! p)) [0..<seq_len]) =
      map (\<lambda>p. Inr (tlog (?sel p))) [0..<seq_len]"
  proof (rule nth_equalityI)
    show "length (map ?pick (map (\<lambda>p. (p, ?pos ! p)) [0..<seq_len])) =
        length (map (\<lambda>p. Inr (tlog (?sel p))) [0..<seq_len])"
      by simp
  next
    fix p assume "p < length (map ?pick (map (\<lambda>p. (p, ?pos ! p)) [0..<seq_len]))"
    then have p: "p < seq_len" by simp
    from pick [OF p] p
    show "map ?pick (map (\<lambda>p. (p, ?pos ! p)) [0..<seq_len]) ! p =
        map (\<lambda>p. Inr (tlog (?sel p))) [0..<seq_len] ! p"
      by simp
  qed
  have "index3 ?t [0..<seq_len] idx ?pos =
      sequence_err (map (\<lambda>p. Inr (tlog (?sel p))) [0..<seq_len])"
    by (simp only: index3_def bc sum.case mapeq)
  then have "index3 ?t [0..<seq_len] idx ?pos = Inr (map (\<lambda>p. tlog (?sel p)) [0..<seq_len])"
    by (simp only: sequence_err_map_Inr)
  then show ?thesis
    by (simp add: event_term_def tsum_tlog)
qed

lemma accumulate_returns_each:
  assumes "accumulate f idx xs acc = Inr v" and "b < length xs"
  shows "\<exists>w. f (idx + b) (xs ! b) = Inr w"
  using assms
proof (induction xs arbitrary: idx acc b)
  case Nil
  then show ?case by simp
next
  case (Cons x xs)
  from Cons.prems(1) obtain w where w: "f idx x = Inr w"
    and run: "accumulate f (Suc idx) xs (tadd acc w) = Inr v"
    by (cases "f idx x") simp_all
  show ?case
  proof (cases b)
    case 0
    with w show ?thesis by simp
  next
    case (Suc c)
    with Cons.prems(2) have "c < length xs" by simp
    from Cons.IH [OF run this] Suc show ?thesis by simp
  qed
qed

lemma sequence_err_returns:
  "sequence_err rs = Inr ys \<Longrightarrow>
     length ys = length rs \<and> (\<forall>i<length rs. rs ! i = Inr (ys ! i))"
proof (induction rs arbitrary: ys)
  case Nil
  then show ?case by simp
next
  case (Cons r rs)
  from Cons.prems obtain y zs where r: "r = Inr y" and zs: "sequence_err rs = Inr zs"
    and ys: "ys = y # zs"
    by (auto split: sum.splits)
  from Cons.IH [OF zs] have "length zs = length rs" "\<forall>i<length rs. rs ! i = Inr (zs ! i)"
    by simp_all
  then show ?case using r ys by (auto simp: nth_Cons split: nat.splits)
qed

lemma event_term_picks:
  assumes run: "event_term t idx event_seq seq_len = Inr w"
    and len: "seq_len < length event_seq" and p: "p < seq_len"
    and k: "0 \<le> event_seq ! (p + 1)"
  shows "p < length t \<and> idx < length (t ! p) \<and>
         nat (event_seq ! (p + 1)) < length (t ! p ! idx) \<and>
         (t ! p ! idx ! nat (event_seq ! (p + 1)) = None \<longrightarrow> w = None)"
proof -
  let ?pos = "slice event_seq 1 (seq_len + 1)"
  let ?pick = "\<lambda>(p, k). case nth_err t p of
                   Inl e \<Rightarrow> Inl e
                 | Inr batch \<Rightarrow> (case nth_err batch idx of Inl e \<Rightarrow> Inl e | Inr v \<Rightarrow> py_nth v k)"
  let ?pairs = "map (\<lambda>p. (p, ?pos ! p)) [0..<seq_len]"
  have lpos: "length ?pos = seq_len" using len by (simp add: slice_def)
  have pos: "?pos ! p = event_seq ! (p + 1)" using p len by (simp add: slice_def)
  have bc: "broadcast2 [0..<seq_len] ?pos = Inr ?pairs"
    using lpos by (simp add: broadcast2_def zip_upt_nth)
  have "event_term t idx event_seq seq_len =
      (case sequence_err (map ?pick ?pairs) of
         Inl e \<Rightarrow> Inl e
       | Inr picked \<Rightarrow> Inr (tsum picked))"
    by (simp only: event_term_def index3_def Let_def bc sum.case)
  with run obtain picked where
    seq: "sequence_err (map ?pick ?pairs) = Inr picked" and w: "w = tsum picked"
    by (cases "sequence_err (map ?pick ?pairs)") simp_all
  from sequence_err_returns [OF seq] p have
    lp: "length picked = seq_len" and nthp: "map ?pick ?pairs ! p = Inr (picked ! p)"
    by simp_all
  have "map ?pick ?pairs ! p = ?pick (p, ?pos ! p)" using p by simp
  with nthp have "?pick (p, ?pos ! p) = Inr (picked ! p)" by simp
  then have pick: "?pick (p, event_seq ! (p + 1)) = Inr (picked ! p)"
    unfolding pos .
  then have rng: "p < length t \<and> idx < length (t ! p) \<and>
      nat (event_seq ! (p + 1)) < length (t ! p ! idx) \<and>
      picked ! p = t ! p ! idx ! nat (event_seq ! (p + 1))"
    using k by (auto simp: nth_err_def py_nth_def split: if_splits sum.splits)
  have "w = None" if "t ! p ! idx ! nat (event_seq ! (p + 1)) = None"
  proof -
    from that rng have "picked ! p = None" by simp
    with p lp have "None \<in> set picked" by (metis nth_mem)
    then show ?thesis by (simp add: w tsum_def foldl_tadd)
  qed
  with rng show ?thesis by blast
qed

text \<open>
  Claim C3, as the code has it. The loss takes the logarithm of the intensity layer's
  output as it is, with no clamp and no floor: whenever the loss returns and the intensity
  of the observed type at one real event of one sequence is zero or negative, the
  event-term sum, and with it the loss, is not a finite number (the logarithm is
  \<^verbatim>\<open>-inf\<close> at 0).
\<close>

theorem forward_log_unclamped:
  assumes "forward m event_seqs time_seqs seqs_length total_time_seqs st g = Inr (v, g')"
    and "b < length event_seqs" and "b < length seqs_length"
    and "seqs_length ! b < length (event_seqs ! b)"
    and "p < seqs_length ! b" and "0 \<le> event_seqs ! b ! (p + 1)"
    and "intensity_layer m (hidden_t st ! p ! b) ! nat (event_seqs ! b ! (p + 1)) \<le> 0"
  shows "v = None"
proof -
  define li where "li = map (map (map tlog)) (map (map (intensity_layer m)) (hidden_t st))"
  let ?f = "\<lambda>idx (event_seq, seq_len). event_term li idx event_seq seq_len"
  let ?xs = "zip event_seqs seqs_length"
  let ?k = "nat (event_seqs ! b ! (p + 1))"
  from assms(1) obtain orig simulated where
    acc: "accumulate ?f 0 ?xs (Some 0) = Inr orig"
    and v: "v = tneg (tsub orig simulated)"
    by (auto simp: forward_def Let_def li_def split: sum.splits prod.splits)
  have b: "b < length ?xs" using assms(2,3) by simp
  from accumulate_returns_each [OF acc b] obtain w where
    "?f (0 + b) (?xs ! b) = Inr w" ..
  then have ev: "event_term li b (event_seqs ! b) (seqs_length ! b) = Inr w"
    using assms(2,3) by simp
  from event_term_picks [OF ev assms(4,5,6)] have
    r1: "p < length li" and r2: "b < length (li ! p)" and r3: "?k < length (li ! p ! b)"
    and none: "li ! p ! b ! ?k = None \<longrightarrow> w = None"
    by simp_all
  from r1 have P: "p < length (hidden_t st)" by (simp add: li_def)
  then have lp: "li ! p = map (map tlog) (map (intensity_layer m) (hidden_t st ! p))"
    by (simp add: li_def)
  from r2 have B: "b < length (hidden_t st ! p)" unfolding lp by simp
  then have lb: "li ! p ! b = map tlog (intensity_layer m (hidden_t st ! p ! b))"
    unfolding lp by simp
  from r3 have K: "?k < length (intensity_layer m (hidden_t st ! p ! b))"
    unfolding lb by simp
  then have "li ! p ! b ! ?k = tlog (intensity_layer m (hidden_t st ! p ! b) ! ?k)"
    unfolding lb by simp
  with assms(7) have "li ! p ! b ! ?k = None" by (simp add: tlog_def)
  with none have "w = None" by simp
  with ev have "?f (0 + b) (?xs ! b) = Inr None" using assms(2,3) by simp
  from accumulate_meets_none [OF b this acc] have "orig = None" .
  then show ?thesis by (simp add: v tsub_def tneg_def)
qed

theorem forward_log_unclamped_witness:
  "forward silent_model [[2, 0], [2, 0]] [[0, 1], [0, 2]] [1, 1] [1, 2] toy_states half_gen =
     Inr (None, half_gen)"
proof -
  have "\<exists>v. forward silent_model [[2, 0], [2, 0]] [[0, 1], [0, 2]] [1, 1] [1, 2] toy_states half_gen =
      Inr (v, half_gen)"
    by (simp add: forward_def ncols_def silent_model_def toy_model_def toy_states_def
      event_term_def integral_term_def index3_def index_rows_def broadcast2_def slice_def
      tsum_def tdiv_def tmul_def tadd_def tsub_def tneg_def tlog_def nth_err_def py_nth_def
      create_unif_d_def torch_rand_def uniform_fill_def torch_stack_def transpose10_def
      decay_batch_def advance_half_gen half_gen_apply upt_rec Let_def)
  then obtain v where
    run: "forward silent_model [[2, 0], [2, 0]] [[0, 1], [0, 2]] [1, 1] [1, 2] toy_states half_gen =
      Inr (v, half_gen)" ..
  have zero: "intensity_layer silent_model (hidden_t toy_states ! 0 ! 0) !
      nat ([[2, 0], [2, 0]] ! 0 ! (0 + 1)) \<le> 0"
    by (simp add: silent_model_def)
  from forward_log_unclamped [OF run _ _ _ _ _ zero] have "v = None" by simp
  with run show ?thesis by simp
qed

text \<open>
  The claim as stated fails on an intensity layer that returns 0, for two sequences of one
  event each: the integral terms are 0, and the loss is the logarithm of 0, not a finite
  number.
\<close>

theorem forward_log_unclamped_counterexample:
  "forward silent_model [[2, 0], [2, 0]] [[0, 3], [0, 1]] [1, 1] [3, 1] toy_states half_gen =
     Inr (None, half_gen)"
  by (simp add: forward_def ncols_def silent_model_def toy_model_def toy_states_def
      event_term_def integral_term_def index3_def index_rows_def broadcast2_def slice_def
      tsum_def tdiv_def tmul_def tadd_def tsub_def tneg_def tlog_def nth_err_def py_nth_def
      create_unif_d_def torch_rand_def uniform_fill_def torch_stack_def transpose10_def
      decay_batch_def advance_half_gen half_gen_apply upt_rec Let_def)

end
